theory Spec2Isabelle
  imports Complex_Main
begin

section \<open>The value domain of the C++ type double\<close>

text \<open>
  The sources compute on C++ \<^verbatim>\<open>double\<close> values. A value of that type is a finite
  number, an infinity of either sign, or a NaN. The embedding keeps these four kinds
  apart, so that a division by zero yields an infinity or a NaN as it does on the
  machine, and a comparison with a NaN is false.

  Two idealisations are made: finite values are exact reals (no rounding, no overflow to
  infinity, no underflow to zero), and zero carries no sign (a zero divisor is read as +0).
  The first has one exception. Line 133 of \<^verbatim>\<open>redoxKinetics.cpp\<close> converts a product to an
  \<^verbatim>\<open>int\<close>, and the integer depends on how the two multiplications round; these two
  multiplications are those of binary64 (\<open>fmul\<close> below).
\<close>

datatype double = Fin real | PInf | MInf | NaN

fun dneg :: "double \<Rightarrow> double" where
  "dneg (Fin a) = Fin (- a)"
| "dneg PInf = MInf"
| "dneg MInf = PInf"
| "dneg NaN = NaN"

fun dadd :: "double \<Rightarrow> double \<Rightarrow> double" where
  "dadd (Fin a) (Fin b) = Fin (a + b)"
| "dadd (Fin a) PInf = PInf"
| "dadd (Fin a) MInf = MInf"
| "dadd PInf (Fin b) = PInf"
| "dadd PInf PInf = PInf"
| "dadd MInf (Fin b) = MInf"
| "dadd MInf MInf = MInf"
| "dadd PInf MInf = NaN"
| "dadd MInf PInf = NaN"
| "dadd NaN y = NaN"
| "dadd x NaN = NaN"

definition signedInf :: "bool \<Rightarrow> double" where
  "signedInf positive = (if positive then PInf else MInf)"

fun dmul :: "double \<Rightarrow> double \<Rightarrow> double" where
  "dmul (Fin a) (Fin b) = Fin (a * b)"
| "dmul (Fin a) PInf = (if a = 0 then NaN else signedInf (0 < a))"
| "dmul (Fin a) MInf = (if a = 0 then NaN else signedInf (a < 0))"
| "dmul PInf (Fin b) = (if b = 0 then NaN else signedInf (0 < b))"
| "dmul MInf (Fin b) = (if b = 0 then NaN else signedInf (b < 0))"
| "dmul PInf PInf = PInf"
| "dmul PInf MInf = MInf"
| "dmul MInf PInf = MInf"
| "dmul MInf MInf = PInf"
| "dmul NaN y = NaN"
| "dmul x NaN = NaN"

fun ddiv :: "double \<Rightarrow> double \<Rightarrow> double" where
  "ddiv (Fin a) (Fin b) =
     (if b = 0 then (if a = 0 then NaN else signedInf (0 < a)) else Fin (a / b))"
| "ddiv (Fin a) PInf = Fin 0"
| "ddiv (Fin a) MInf = Fin 0"
| "ddiv PInf (Fin b) = signedInf (0 \<le> b)"
| "ddiv MInf (Fin b) = signedInf (b < 0)"
| "ddiv PInf PInf = NaN"
| "ddiv PInf MInf = NaN"
| "ddiv MInf PInf = NaN"
| "ddiv MInf MInf = NaN"
| "ddiv NaN y = NaN"
| "ddiv x NaN = NaN"

fun dless :: "double \<Rightarrow> double \<Rightarrow> bool" where
  "dless (Fin a) (Fin b) = (a < b)"
| "dless (Fin a) PInf = True"
| "dless MInf (Fin b) = True"
| "dless MInf PInf = True"
| "dless x y = False"

definition dless_eq :: "double \<Rightarrow> double \<Rightarrow> bool" where
  "dless_eq x y = (dless x y \<or> (x = y \<and> x \<noteq> NaN))"

instantiation double :: "{plus, minus, uminus, times, inverse, ord}"
begin

definition plus_double :: "double \<Rightarrow> double \<Rightarrow> double" where
  "plus_double x y = dadd x y"

definition minus_double :: "double \<Rightarrow> double \<Rightarrow> double" where
  "minus_double x y = dadd x (dneg y)"

definition uminus_double :: "double \<Rightarrow> double" where
  "uminus_double x = dneg x"

definition times_double :: "double \<Rightarrow> double \<Rightarrow> double" where
  "times_double x y = dmul x y"

definition divide_double :: "double \<Rightarrow> double \<Rightarrow> double" where
  "divide_double x y = ddiv x y"

definition inverse_double :: "double \<Rightarrow> double" where
  "inverse_double x = ddiv (Fin 1) x"

definition less_double :: "double \<Rightarrow> double \<Rightarrow> bool" where
  "less_double x y = dless x y"

definition less_eq_double :: "double \<Rightarrow> double \<Rightarrow> bool" where
  "less_eq_double x y = dless_eq x y"

instance ..

end

text \<open>\<^verbatim>\<open>exp\<close> and \<^verbatim>\<open>ceil\<close> of \<^verbatim>\<open><cmath>\<close>.\<close>

fun dexp :: "double \<Rightarrow> double" where
  "dexp (Fin a) = Fin (exp a)"
| "dexp PInf = PInf"
| "dexp MInf = Fin 0"
| "dexp NaN = NaN"

fun dceil :: "double \<Rightarrow> double" where
  "dceil (Fin a) = Fin (of_int \<lceil>a\<rceil>)"
| "dceil x = x"

text \<open>
  Conversions between \<^verbatim>\<open>double\<close> and the 32-bit \<^verbatim>\<open>int\<close>. From \<^verbatim>\<open>double\<close> the value is
  truncated towards zero; when the truncated value is not representable (or the
  operand is not finite) the C++ conversion has undefined behaviour, which is the
  result \<open>None\<close>.
\<close>

definition INT_MAX :: int where
  "INT_MAX = 2147483647"

definition INT_MIN :: int where
  "INT_MIN = - 2147483648"

definition truncToZero :: "real \<Rightarrow> int" where
  "truncToZero a = (if 0 \<le> a then \<lfloor>a\<rfloor> else \<lceil>a\<rceil>)"

fun toInt :: "double \<Rightarrow> int option" where
  "toInt (Fin a) =
     (if INT_MIN \<le> truncToZero a \<and> truncToZero a \<le> INT_MAX then Some (truncToZero a) else None)"
| "toInt x = None"

definition ofInt :: "int \<Rightarrow> double" where
  "ofInt i = Fin (of_int i)"

text \<open>
  The multiplication of binary64, round to nearest, ties to even. \<open>pow2 e\<close> is the power
  \<open>2^e\<close> for an integer \<open>e\<close>, \<open>binade x\<close> the exponent of \<open>x\<close>, and \<open>ulp64 x\<close> the distance of
  neighbouring binary64 values around \<open>x\<close>: 53 significant bits down to the exponent
  -1022, and the fixed distance \<open>2^-1074\<close> below. \<open>round64 x\<close> is the multiple of \<open>ulp64 x\<close>
  nearest to \<open>x\<close>; a result of magnitude \<open>2^1024\<close> or more is an infinity.
\<close>

definition pow2 :: "int \<Rightarrow> real" where
  "pow2 e = (if 0 \<le> e then 2 ^ nat e else 1 / 2 ^ nat (- e))"

definition binade :: "real \<Rightarrow> int" where
  "binade x = \<lfloor>log 2 \<bar>x\<bar>\<rfloor>"

definition roundHalfEven :: "real \<Rightarrow> int" where
  "roundHalfEven q =
     (if q - of_int \<lfloor>q\<rfloor> < 1 / 2 then \<lfloor>q\<rfloor>
      else if 1 / 2 < q - of_int \<lfloor>q\<rfloor> then \<lfloor>q\<rfloor> + 1
      else if even \<lfloor>q\<rfloor> then \<lfloor>q\<rfloor> else \<lfloor>q\<rfloor> + 1)"

definition ulp64 :: "real \<Rightarrow> real" where
  "ulp64 x = pow2 (max (binade x) (- 1022) - 52)"

definition round64 :: "real \<Rightarrow> real" where
  "round64 x = of_int (roundHalfEven (x / ulp64 x)) * ulp64 x"

definition fmul :: "double \<Rightarrow> double \<Rightarrow> double" where
  "fmul x y =
     (case (x, y) of
        (Fin a, Fin b) \<Rightarrow>
          (let r = round64 (a * b)
           in if pow2 1024 \<le> \<bar>r\<bar> then signedInf (0 < r) else Fin r)
      | _ \<Rightarrow> x * y)"

text \<open>A real number that is a value of binary64.\<close>

definition isBinary64 :: "real \<Rightarrow> bool" where
  "isBinary64 x = (round64 x = x \<and> \<bar>x\<bar> < pow2 1024)"

definition isFinite :: "double \<Rightarrow> bool" where
  "isFinite x = (case x of Fin a \<Rightarrow> True | _ \<Rightarrow> False)"

section \<open>Arrays\<close>

text \<open>
  A \<^verbatim>\<open>double*\<close> is modelled by the function that maps an offset to the value stored at
  that offset from the pointer. For an array of \<open>N\<close> elements the offsets below \<open>N\<close> are the
  array; the offsets from \<open>N\<close> on are the memory behind it. The sources read and write
  offset \<open>N\<close> in places, so these cells are part of the model: what they hold initially is
  not determined by the program and is a parameter wherever it matters. Distinct arrays
  are taken not to overlap, also behind their ends.
\<close>

type_synonym array = "nat \<Rightarrow> double"

section \<open>definitions.h\<close>

definition const_r :: double where
  "const_r = Fin 8.3145"

definition const_t :: double where
  "const_t = Fin 295.0"

definition const_rt :: double where
  "const_rt = const_r * const_t"

definition const_f :: double where
  "const_f = Fin 96485.0"

definition FbyRT :: double where
  "FbyRT = const_f / const_rt"

definition ln2 :: double where
  "ln2 = Fin 0.69314718056"

section \<open>cv.cpp and swv.cpp: the capacitive correction\<close>

text \<open>
  \<open>dlcCorrectedCVsequence\<close> allocates its result with \<^verbatim>\<open>new double[arraySize]\<close>; \<open>fresh\<close> is
  the content of that memory before the function writes to it.
\<close>

definition cvStep :: "array \<Rightarrow> double \<Rightarrow> nat \<Rightarrow> array \<Rightarrow> array" where
  "cvStep inputCVsequence decayTerm i a =
     a(i := a (i - 1) + (inputCVsequence i - a (i - 1)) * decayTerm)"

definition dlcCorrectedCVsequence ::
  "double \<Rightarrow> double \<Rightarrow> double \<Rightarrow> nat \<Rightarrow> array \<Rightarrow> array \<Rightarrow> array" where
  "dlcCorrectedCVsequence resistance capacitance timeIncrement arraySize inputCVsequence fresh =
     (let decayTerm = Fin 1 - dexp (- (timeIncrement / (resistance * capacitance)));
          dlcCorrectedCV = fresh(0 := inputCVsequence 0)
      in fold (cvStep inputCVsequence decayTerm) [1..<arraySize] dlcCorrectedCV)"

definition currentStep :: "double \<Rightarrow> array \<Rightarrow> array \<Rightarrow> nat \<Rightarrow> array \<Rightarrow> array" where
  "currentStep resistance raw corrected i a = a(i := (raw i - corrected i) / resistance)"

definition dlcCurrentCV :: "double \<Rightarrow> nat \<Rightarrow> array \<Rightarrow> array \<Rightarrow> array \<Rightarrow> array" where
  "dlcCurrentCV resistance arraySize rawCV DLCcorrectedCV fresh =
     fold (currentStep resistance rawCV DLCcorrectedCV) [0..<arraySize] fresh"

definition swvStep :: "array \<Rightarrow> double \<Rightarrow> nat \<Rightarrow> array \<Rightarrow> array" where
  "swvStep inputSignal decayTerm i a =
     (if i = 0 then a(0 := inputSignal 0)
      else (let deltaE = inputSignal i - a (i - 1)
            in a(i := a (i - 1) + deltaE * decayTerm)))"

definition swvDLCCorrectedInputArray ::
  "double \<Rightarrow> double \<Rightarrow> double \<Rightarrow> array \<Rightarrow> nat \<Rightarrow> int \<Rightarrow> array \<Rightarrow> array" where
  "swvDLCCorrectedInputArray pulse_time resistance capacitance inputSignal arraySize npp fresh =
     (let decayTerm = Fin 1 - dexp (- (pulse_time / ofInt npp) / (resistance * capacitance))
      in fold (swvStep inputSignal decayTerm) [0..<arraySize] fresh)"

definition swvDLCcurrent :: "double \<Rightarrow> nat \<Rightarrow> array \<Rightarrow> array \<Rightarrow> array \<Rightarrow> array" where
  "swvDLCcurrent resistance arraySize inputSignal dlcCorrectedSignal fresh =
     fold (currentStep resistance inputSignal dlcCorrectedSignal) [0..<arraySize] fresh"

section \<open>redoxKinetics.cpp: the kinetics engine\<close>

subsection \<open>The two helper functions\<close>

definition startingRedConcentration :: "double \<Rightarrow> double \<Rightarrow> int \<Rightarrow> double" where
  "startingRedConcentration overpotential componentLoading z =
     (let redStart = componentLoading / (Fin 1 + dexp (ofInt z * FbyRT * overpotential))
      in redStart)"

definition instantaneousRedConc ::
  "double \<Rightarrow> double \<Rightarrow> double \<Rightarrow> double \<Rightarrow> double \<Rightarrow> double" where
  "instantaneousRedConc red0 g kratio ksum time =
     (let gKratio = g * kratio;
          red = gKratio + (red0 - gKratio) * dexp ((- ksum) * time)
      in red)"

subsection \<open>Arguments and working buffers of \<open>redoxKineticsFull\<close>\<close>

text \<open>
  The parameter list of \<open>redoxKineticsFull\<close>. The two counts are \<^verbatim>\<open>int\<close> in the source and are
  taken non-negative here (a negative length makes \<^verbatim>\<open>new\<close> throw, a negative component
  count runs no iteration): a call with a negative length is outside the model.
\<close>

record args =
  timePeriod :: double
  resistance :: double
  sizeOfInputArray :: nat
  lenOfPulseSequence :: nat
  inputPulseSequence :: array
  DLCcorrectedSequence :: array
  loadingsArray :: array
  kineticConstArray :: array
  redoxPotArray :: array
  symCoefArray :: array
  zArray :: array

text \<open>The ten arrays that the function allocates with \<^verbatim>\<open>new double [lenOfPulseSequence]\<close>.\<close>

record buffers =
  overpotentials :: array
  averagedPulseSequence :: array
  overcorrectedPulseSequence :: array
  forwardK :: array
  backwardK :: array
  Ksum :: array
  Kratio :: array
  forwardKhalflife :: array
  backwardKhalflife :: array
  cur :: array

text \<open>The three \<^verbatim>\<open>volatile\<close> locals that describe the window of one component.\<close>

record window =
  lookupMinTreshhold :: nat
  lookupMaxTreshold :: nat
  LookupThresholdFound :: bool

subsection \<open>Lines 17 to 43: allocation and initialisation\<close>

text \<open>
  Every loop over an array is a \<open>fold\<close> of its body over the indices it visits; the body
  is a function of the index and the buffers. \<open>heap\<close> is the content of the freshly
  allocated memory (and of the cells behind each array) before the function writes to it.
\<close>

definition copyStep :: "args \<Rightarrow> nat \<Rightarrow> buffers \<Rightarrow> buffers" where
  "copyStep p i s =
     s\<lparr>averagedPulseSequence := (averagedPulseSequence s)(i := DLCcorrectedSequence p i),
       overcorrectedPulseSequence := (overcorrectedPulseSequence s)(i := DLCcorrectedSequence p i)\<rparr>"

definition zeroStep :: "nat \<Rightarrow> buffers \<Rightarrow> buffers" where
  "zeroStep i s = s\<lparr>cur := (cur s)(i := Fin 0)\<rparr>"

definition allocate :: "args \<Rightarrow> buffers \<Rightarrow> buffers" where
  "allocate p heap =
     fold zeroStep [0..<lenOfPulseSequence p]
       (fold (copyStep p) [0..<lenOfPulseSequence p] heap)"

definition timeBenchmark :: "args \<Rightarrow> double" where
  "timeBenchmark p = Fin 10 * timePeriod p"

definition positiveScanDirection :: "args \<Rightarrow> bool" where
  "positiveScanDirection p =
     (DLCcorrectedSequence p 0 > DLCcorrectedSequence p (lenOfPulseSequence p))"

subsection \<open>Lines 54 to 67: overpotentials, rate constants and half-lives\<close>

definition overpotentialStep :: "args \<Rightarrow> nat \<Rightarrow> nat \<Rightarrow> buffers \<Rightarrow> buffers" where
  "overpotentialStep p i j s =
     s\<lparr>overpotentials := (overpotentials s)(j := averagedPulseSequence s j - redoxPotArray p i)\<rparr>"

definition computeOverpotentials :: "args \<Rightarrow> nat \<Rightarrow> buffers \<Rightarrow> buffers" where
  "computeOverpotentials p i st = fold (overpotentialStep p i) [0..<lenOfPulseSequence p] st"

definition rateStep :: "args \<Rightarrow> nat \<Rightarrow> nat \<Rightarrow> buffers \<Rightarrow> buffers" where
  "rateStep p i j s =
     (let s1 = s\<lparr>backwardK := (backwardK s)(j :=
                  kineticConstArray p i *
                    dexp ((- overpotentials s j) * FbyRT * zArray p i * (Fin 1 - symCoefArray p i)))\<rparr>;
          s2 = s1\<lparr>forwardK := (forwardK s1)(j :=
                  kineticConstArray p i *
                    dexp (overpotentials s1 j * FbyRT * zArray p i * symCoefArray p i))\<rparr>;
          s3 = s2\<lparr>forwardKhalflife := (forwardKhalflife s2)(j := ln2 / forwardK s2 j)\<rparr>
      in s3\<lparr>backwardKhalflife := (backwardKhalflife s3)(j := ln2 / backwardK s3 j)\<rparr>)"

definition computeRates :: "args \<Rightarrow> nat \<Rightarrow> buffers \<Rightarrow> buffers" where
  "computeRates p i st = fold (rateStep p i) [0..<lenOfPulseSequence p] st"

subsection \<open>Lines 78 to 125: window detection\<close>

text \<open>
  Both scans leave their loop at the first index whose half-life exceeds the threshold.
  Each returns that index, if there is one, together with the indices at which it read
  the half-life array, in the order of the reads.
\<close>

function forwardScan :: "array \<Rightarrow> double \<Rightarrow> nat \<Rightarrow> nat \<Rightarrow> nat option \<times> nat list" where
  "forwardScan halflife threshold N j =
     (if j < N then
        (if halflife j > threshold then (Some j, [j])
         else (case forwardScan halflife threshold N (Suc j) of
                 (found, reads) \<Rightarrow> (found, j # reads)))
      else (None, []))"
  by pat_completeness auto
termination
  by (relation "measure (\<lambda>(halflife, threshold, N, j). N - j)") auto

declare forwardScan.simps [simp del]

fun reverseScan :: "array \<Rightarrow> double \<Rightarrow> nat \<Rightarrow> nat option \<times> nat list" where
  "reverseScan halflife threshold 0 = (None, [])"
| "reverseScan halflife threshold (Suc j) =
     (if halflife (Suc j) > threshold then (Some (Suc j), [Suc j])
      else (case reverseScan halflife threshold j of
              (found, reads) \<Rightarrow> (found, Suc j # reads)))"

definition setMin :: "nat option \<Rightarrow> window \<Rightarrow> window" where
  "setMin found w =
     (case found of None \<Rightarrow> w
      | Some j \<Rightarrow> w\<lparr>lookupMinTreshhold := j, LookupThresholdFound := True\<rparr>)"

definition setMax :: "nat option \<Rightarrow> window \<Rightarrow> window" where
  "setMax found w =
     (case found of None \<Rightarrow> w
      | Some j \<Rightarrow> w\<lparr>lookupMaxTreshold := j, LookupThresholdFound := True\<rparr>)"

text \<open>
  The \<^verbatim>\<open>switch\<close> on the scan direction. Besides the window, \<open>windowScan\<close> returns the
  indices read by the forward scan and the indices read by the reverse scan.
\<close>

definition windowScan :: "args \<Rightarrow> bool \<Rightarrow> nat \<Rightarrow> buffers \<Rightarrow> window \<times> nat list \<times> nat list" where
  "windowScan p direction i st =
     (let N = lenOfPulseSequence p;
          w = \<lparr>lookupMinTreshhold = 0, lookupMaxTreshold = N, LookupThresholdFound = False\<rparr>
      in if \<not> direction then
           (let fwd = forwardScan (forwardKhalflife st)
                        (timeBenchmark p * (Fin 1 - symCoefArray p i)) N 0;
                rev = reverseScan (backwardKhalflife st)
                        (timeBenchmark p * symCoefArray p i) N
            in (setMax (fst rev) (setMin (fst fwd) w), snd fwd, snd rev))
         else
           (let fwd = forwardScan (backwardKhalflife st)
                        (timeBenchmark p * symCoefArray p i) N 0;
                rev = reverseScan (forwardKhalflife st)
                        (timeBenchmark p * (Fin 1 - symCoefArray p i)) N
            in (setMax (fst rev) (setMin (fst fwd) w), snd fwd, snd rev)))"

definition windowDetection :: "args \<Rightarrow> bool \<Rightarrow> nat \<Rightarrow> buffers \<Rightarrow> window" where
  "windowDetection p direction i st = fst (windowScan p direction i st)"

subsection \<open>Lines 133 to 146: discretisation of the loading, sums and ratios\<close>

text \<open>
  Line 133. The two products are binary64 products. \<open>None\<close> is undefined behaviour: the
  ceiling does not fit an \<^verbatim>\<open>int\<close>, or the increment overflows.
\<close>

definition loadingDivider :: "double \<Rightarrow> int option" where
  "loadingDivider loading =
     (case toInt (dceil (fmul (fmul (Fin 20) loading) (Fin 1000000000))) of
        None \<Rightarrow> None
      | Some d \<Rightarrow>
          if d mod 2 \<noteq> 0 then (if d = INT_MAX then None else Some (d + 1)) else Some d)"

definition truncatedComponent :: "double \<Rightarrow> int \<Rightarrow> double" where
  "truncatedComponent loading divider = Fin 2 * loading / ofInt divider"

definition sumRatioStep :: "nat \<Rightarrow> buffers \<Rightarrow> buffers" where
  "sumRatioStep j s =
     (let s1 = s\<lparr>Ksum := (Ksum s)(j := forwardK s j + backwardK s j)\<rparr>
      in s1\<lparr>Kratio := (Kratio s1)(j := backwardK s1 j / Ksum s1 j)\<rparr>)"

definition computeSumRatio :: "args \<Rightarrow> buffers \<Rightarrow> buffers" where
  "computeSumRatio p st = fold sumRatioStep [0..<lenOfPulseSequence p] st"

subsection \<open>Lines 151 to 227: the relaxation loop\<close>

text \<open>
  Lines 166 to 181 and, identically, 197 to 208: the current march. It carries the
  concentration \<open>Red0\<close> with the buffers. Its last index is \<open>lookupMaxTreshold\<close>; when that is
  \<open>lenOfPulseSequence\<close> the march reads the four rate arrays and stores \<open>cur\<close> one cell behind
  the allocation, which the model carries out on the cells behind the arrays.
\<close>

definition marchStep ::
  "args \<Rightarrow> nat \<Rightarrow> double \<Rightarrow> nat \<Rightarrow> double \<times> buffers \<Rightarrow> double \<times> buffers" where
  "marchStep p i component n x =
     (case x of (Red0, s) \<Rightarrow>
        let current = zArray p i * const_f *
                        (Red0 * forwardK s n - (component - Red0) * backwardK s n);
            s1 = s\<lparr>cur := (cur s)(n := current)\<rparr>
        in (instantaneousRedConc Red0 component (Kratio s1 n) (Ksum s1 n) (timePeriod p), s1))"

definition currentMarch ::
  "args \<Rightarrow> nat \<Rightarrow> double \<Rightarrow> window \<Rightarrow> double \<times> buffers \<Rightarrow> double \<times> buffers" where
  "currentMarch p i component w start =
     fold (marchStep p i component)
       [lookupMinTreshhold w + 1..<lookupMaxTreshold w + 1] start"

text \<open>Lines 182 to 193: the first resistive correction.\<close>

definition overcorrectionStep :: "args \<Rightarrow> nat \<Rightarrow> nat \<Rightarrow> buffers \<Rightarrow> buffers" where
  "overcorrectionStep p i m s =
     (let s1 = s\<lparr>overcorrectedPulseSequence := (overcorrectedPulseSequence s)(m :=
                  overcorrectedPulseSequence s m - cur s m * resistance p)\<rparr>;
          s2 = s1\<lparr>overpotentials := (overpotentials s1)(m :=
                  overcorrectedPulseSequence s1 m - redoxPotArray p i)\<rparr>;
          s3 = s2\<lparr>forwardK := (forwardK s2)(m :=
                  kineticConstArray p i *
                    dexp (overpotentials s2 m * FbyRT * zArray p i * symCoefArray p i))\<rparr>;
          s4 = s3\<lparr>backwardK := (backwardK s3)(m :=
                  kineticConstArray p i *
                    dexp ((- overpotentials s3 m) * FbyRT * zArray p i * (Fin 1 - symCoefArray p i)))\<rparr>;
          s5 = s4\<lparr>Ksum := (Ksum s4)(m := forwardK s4 m + backwardK s4 m)\<rparr>
      in s5\<lparr>Kratio := (Kratio s5)(m := backwardK s5 m / Ksum s5 m)\<rparr>)"

definition overcorrectionPass :: "args \<Rightarrow> nat \<Rightarrow> window \<Rightarrow> buffers \<Rightarrow> buffers" where
  "overcorrectionPass p i w st =
     fold (overcorrectionStep p i) [lookupMinTreshhold w..<lookupMaxTreshold w] st"

text \<open>Lines 210 to 224: the second resistive correction and the averaging.\<close>

definition averagingStep :: "args \<Rightarrow> nat \<Rightarrow> nat \<Rightarrow> buffers \<Rightarrow> buffers" where
  "averagingStep p i m s =
     (let s0 = s\<lparr>averagedPulseSequence := (averagedPulseSequence s)(m :=
                  overcorrectedPulseSequence s m - cur s m * resistance p)\<rparr>;
          s1 = s0\<lparr>averagedPulseSequence := (averagedPulseSequence s0)(m :=
                  (averagedPulseSequence s0 m + overcorrectedPulseSequence s0 m) / Fin 2)\<rparr>;
          s2 = s1\<lparr>overcorrectedPulseSequence := (overcorrectedPulseSequence s1)(m :=
                  averagedPulseSequence s1 m)\<rparr>;
          s3 = s2\<lparr>overpotentials := (overpotentials s2)(m :=
                  averagedPulseSequence s2 m - redoxPotArray p i)\<rparr>;
          s4 = s3\<lparr>forwardK := (forwardK s3)(m :=
                  kineticConstArray p i *
                    dexp (overpotentials s3 m * FbyRT * zArray p i * symCoefArray p i))\<rparr>;
          s5 = s4\<lparr>backwardK := (backwardK s4)(m :=
                  kineticConstArray p i *
                    dexp ((- overpotentials s4 m) * FbyRT * zArray p i * (Fin 1 - symCoefArray p i)))\<rparr>;
          s6 = s5\<lparr>Ksum := (Ksum s5)(m := forwardK s5 m + backwardK s5 m)\<rparr>
      in s6\<lparr>Kratio := (Kratio s6)(m := backwardK s6 m / Ksum s6 m)\<rparr>)"

definition averagingPass :: "args \<Rightarrow> nat \<Rightarrow> window \<Rightarrow> buffers \<Rightarrow> buffers" where
  "averagingPass p i w st =
     fold (averagingStep p i) [lookupMinTreshhold w..<lookupMaxTreshold w] st"

text \<open>
  One iteration \<open>j\<close> of the loop of line 151. The call of \<open>startingRedConcentration\<close> converts
  \<open>zArray[i]\<close> to \<^verbatim>\<open>int\<close>; \<open>None\<close> is the undefined behaviour of that conversion.
\<close>

definition relaxationSlice ::
  "args \<Rightarrow> nat \<Rightarrow> double \<Rightarrow> window \<Rightarrow> nat \<Rightarrow> buffers \<Rightarrow> buffers option" where
  "relaxationSlice p i component w j st =
     (case toInt (zArray p i) of
        None \<Rightarrow> None
      | Some z \<Rightarrow>
          (let Red0 = startingRedConcentration (overpotentials st (lookupMinTreshhold w)) component z
           in if LookupThresholdFound w then
                (if j mod 2 = 0
                 then Some (overcorrectionPass p i w (snd (currentMarch p i component w (Red0, st))))
                 else Some (averagingPass p i w (snd (currentMarch p i component w (Red0, st)))))
              else Some st))"

definition sliceStep ::
  "args \<Rightarrow> nat \<Rightarrow> double \<Rightarrow> window \<Rightarrow> nat \<Rightarrow> buffers option \<Rightarrow> buffers option" where
  "sliceStep p i component w j r =
     (case r of None \<Rightarrow> None | Some s \<Rightarrow> relaxationSlice p i component w j s)"

definition relaxationLoop ::
  "args \<Rightarrow> nat \<Rightarrow> double \<Rightarrow> window \<Rightarrow> int \<Rightarrow> buffers \<Rightarrow> buffers option" where
  "relaxationLoop p i component w divider st =
     fold (sliceStep p i component w) [0..<nat divider] (Some st)"

subsection \<open>Lines 45 to 228: one component\<close>

definition rateState :: "args \<Rightarrow> nat \<Rightarrow> buffers \<Rightarrow> buffers" where
  "rateState p i st = computeRates p i (computeOverpotentials p i st)"

definition componentWindow :: "args \<Rightarrow> bool \<Rightarrow> nat \<Rightarrow> buffers \<Rightarrow> window" where
  "componentWindow p direction i st = windowDetection p direction i (rateState p i st)"

definition processComponent :: "args \<Rightarrow> bool \<Rightarrow> nat \<Rightarrow> buffers \<Rightarrow> buffers option" where
  "processComponent p direction i st =
     (let s1 = rateState p i st;
          w = windowDetection p direction i s1
      in case loadingDivider (loadingsArray p i) of
           None \<Rightarrow> None
         | Some divider \<Rightarrow>
             relaxationLoop p i (truncatedComponent (loadingsArray p i) divider) w divider
               (computeSumRatio p s1))"

text \<open>
  The conversions to \<^verbatim>\<open>int\<close> that component \<open>i\<close> performs are defined: that of the slice
  count, and, when there is at least one slice, that of \<open>zArray[i]\<close>.
\<close>

definition conversionsDefined :: "args \<Rightarrow> nat \<Rightarrow> bool" where
  "conversionsDefined p i =
     (case loadingDivider (loadingsArray p i) of
        None \<Rightarrow> False
      | Some divider \<Rightarrow> (if 0 < divider then toInt (zArray p i) \<noteq> None else True))"

subsection \<open>The whole function\<close>

definition componentStep :: "args \<Rightarrow> nat \<Rightarrow> buffers option \<Rightarrow> buffers option" where
  "componentStep p i r =
     (case r of None \<Rightarrow> None | Some s \<Rightarrow> processComponent p (positiveScanDirection p) i s)"

definition processComponents :: "args \<Rightarrow> buffers \<Rightarrow> buffers option" where
  "processComponents p heap =
     fold (componentStep p) [0..<sizeOfInputArray p] (Some (allocate p heap))"

text \<open>Lines 230 to 234.\<close>

definition ohmStep :: "args \<Rightarrow> nat \<Rightarrow> buffers \<Rightarrow> buffers" where
  "ohmStep p i s =
     s\<lparr>averagedPulseSequence := (averagedPulseSequence s)(i :=
         (inputPulseSequence p i - averagedPulseSequence s i) / resistance p)\<rparr>"

definition ohmsLaw :: "args \<Rightarrow> buffers \<Rightarrow> buffers" where
  "ohmsLaw p st = fold (ohmStep p) [0..<lenOfPulseSequence p] st"

text \<open>
  The function returns the pointer \<open>averagedPulseSequence\<close>. \<open>None\<close> stands for a run with
  undefined behaviour in a conversion to \<^verbatim>\<open>int\<close>. A result \<open>Some\<close> is what the run computes
  when its accesses behind the arrays do no harm; the model does not say that they do
  none.
\<close>

definition redoxKineticsFull :: "args \<Rightarrow> buffers \<Rightarrow> array option" where
  "redoxKineticsFull p heap =
     (case processComponents p heap of
        None \<Rightarrow> None
      | Some st \<Rightarrow> Some (averagedPulseSequence (ohmsLaw p st)))"

text \<open>The caller reads the \<open>lenOfPulseSequence\<close> elements of the returned array.\<close>

definition currentTrace :: "args \<Rightarrow> buffers \<Rightarrow> double list option" where
  "currentTrace p heap =
     (case redoxKineticsFull p heap of
        None \<Rightarrow> None
      | Some a \<Rightarrow> Some (map a [0..<lenOfPulseSequence p]))"

section \<open>Concrete inputs\<close>

text \<open>
  The inputs at which the theorems below are instantiated. \<open>zeroHeap\<close> is memory that
  holds the value zero everywhere.
\<close>

definition zeroArray :: array where
  "zeroArray = (\<lambda>i. Fin 0)"

definition zeroHeap :: buffers where
  "zeroHeap =
     \<lparr>overpotentials = zeroArray, averagedPulseSequence = zeroArray,
      overcorrectedPulseSequence = zeroArray, forwardK = zeroArray, backwardK = zeroArray,
      Ksum = zeroArray, Kratio = zeroArray, forwardKhalflife = zeroArray,
      backwardKhalflife = zeroArray, cur = zeroArray\<rparr>"

text \<open>
  Two samples, raw potential 1 V, corrected potential 0 V, and one component with
  standard potential 0 V, rate constant 1, symmetry coefficient 1/2, one electron and
  loading 1e-10 (two slices).
\<close>

definition slowComponent :: args where
  "slowComponent =
     \<lparr>timePeriod = Fin (1 / 100), resistance = Fin 100, sizeOfInputArray = 1,
      lenOfPulseSequence = 2, inputPulseSequence = (\<lambda>i. Fin 1),
      DLCcorrectedSequence = zeroArray, loadingsArray = (\<lambda>i. Fin (1 / 10000000000)),
      kineticConstArray = (\<lambda>i. Fin 1), redoxPotArray = zeroArray,
      symCoefArray = (\<lambda>i. Fin (1 / 2)), zArray = (\<lambda>i. Fin 1)\<rparr>"

text \<open>The same run with the rate constant raised to 1e6.\<close>

definition fastComponent :: args where
  "fastComponent = slowComponent\<lparr>kineticConstArray := (\<lambda>i. Fin 1000000)\<rparr>"

text \<open>The run of \<open>fastComponent\<close> with resistance zero.\<close>

definition zeroResistance :: args where
  "zeroResistance = fastComponent\<lparr>resistance := Fin 0\<rparr>"

text \<open>
  A corrected sequence of two samples, 1 V then 0 V, with 2 V in the memory cell behind
  the array.
\<close>

definition fallingSequence :: array where
  "fallingSequence = (\<lambda>i. if i = 0 then Fin 1 else if i = 1 then Fin 0 else Fin 2)"

definition fallingArgs :: args where
  "fallingArgs = slowComponent\<lparr>DLCcorrectedSequence := fallingSequence\<rparr>"

text \<open>The binary64 values nearest to 1e-9 and to 2.1e-9.\<close>

definition double_1e_9 :: real where
  "double_1e_9 = 4835703278458517 / 2 ^ 82"

definition double_2_1e_9 :: real where
  "double_2_1e_9 = 5077488442381443 / 2 ^ 81"

text \<open>A raw signal that rises by 1 V per sample.\<close>

definition rampSignal :: array where
  "rampSignal = (\<lambda>i. Fin (real i))"

text \<open>
  Memory in which the two half-life arrays, and the cells behind them, hold the value 1
  from an earlier use.
\<close>

definition staleHeap :: buffers where
  "staleHeap = zeroHeap\<lparr>forwardKhalflife := (\<lambda>i. Fin 1), backwardKhalflife := (\<lambda>i. Fin 1)\<rparr>"

section \<open>Auxiliary facts\<close>

subsection \<open>Arithmetic of doubles\<close>

lemmas double_ops = plus_double_def minus_double_def uminus_double_def times_double_def
  divide_double_def less_double_def

lemma dmul_commute: "dmul x y = dmul y x"
  by (cases x; cases y) (auto simp: signedInf_def mult.commute)

lemma dmul_assoc: "dmul (dmul x y) z = dmul x (dmul y z)"
  by (cases x; cases y; cases z)
     (auto simp: signedInf_def zero_less_mult_iff mult_less_0_iff)

lemma times_double_swap: "a * b * c = a * c * (b::double)"
  by (simp add: times_double_def dmul_assoc dmul_commute [of b c])

lemma dneg_ddiv: "ddiv (dneg x) y = dneg (ddiv x y)"
  by (cases x; cases y) (auto simp: signedInf_def)

lemma neg_divide_double: "(- x) / y = - (x / (y::double))"
  by (simp add: double_ops dneg_ddiv)

lemma ddiv_zero_not_finite: "\<not> isFinite (x / Fin 0)"
  by (cases x) (auto simp: isFinite_def signedInf_def divide_double_def)

subsection \<open>Rounding to binary64\<close>

lemma pow2_powr: "pow2 e = 2 powr (of_int e)"
proof (cases "0 \<le> e")
  case True
  then have "(2::real) powr (of_int e) = 2 powr (real (nat e))" by simp
  also have "\<dots> = 2 ^ nat e" by (simp only: powr_realpow zero_less_numeral)
  finally show ?thesis using True by (simp add: pow2_def)
next
  case False
  then have "(2::real) powr (of_int e) = 2 powr (- real (nat (- e)))" by simp
  also have "\<dots> = 1 / 2 powr (real (nat (- e)))" by (simp only: powr_minus_divide)
  also have "\<dots> = 1 / 2 ^ nat (- e)" by (simp only: powr_realpow zero_less_numeral)
  finally show ?thesis using False by (simp add: pow2_def)
qed

lemma pow2_pos: "0 < pow2 e"
  by (simp add: pow2_powr)

lemma pow2_mono: "a \<le> b \<Longrightarrow> pow2 a \<le> pow2 b"
  by (simp add: pow2_powr)

lemma pow2_add: "pow2 (a + b) = pow2 a * pow2 b"
  by (simp add: pow2_powr powr_add)

lemma binade_eqI:
  assumes "pow2 e \<le> \<bar>x\<bar>" "\<bar>x\<bar> < pow2 (e + 1)"
  shows "binade x = e"
proof -
  have pos: "0 < \<bar>x\<bar>" using assms(1) pow2_pos [of e] by linarith
  have "of_int e \<le> log 2 \<bar>x\<bar>"
    using assms(1) pos by (simp add: pow2_powr le_log_iff)
  moreover have "log 2 \<bar>x\<bar> < of_int e + 1"
    using assms(2) pos by (simp add: pow2_powr log_less_iff)
  ultimately show ?thesis unfolding binade_def by (intro floor_unique) auto
qed

lemma binade_bounds:
  assumes "0 < x"
  shows "pow2 (binade x) \<le> x" and "x < pow2 (binade x + 1)"
proof -
  have "of_int (binade x) \<le> log 2 x" using assms by (simp add: binade_def)
  then show "pow2 (binade x) \<le> x" using assms by (simp add: pow2_powr le_log_iff)
  have "log 2 x < of_int (binade x) + 1" using assms by (simp add: binade_def)
  then show "x < pow2 (binade x + 1)" using assms by (simp add: pow2_powr log_less_iff)
qed

lemma binade_nonneg: "1 \<le> x \<Longrightarrow> 0 \<le> binade x"
  by (simp add: binade_def)

lemma roundHalfEven_near:
  assumes "\<bar>q - of_int n\<bar> < 1 / 2"
  shows "roundHalfEven q = n"
proof -
  define f where "f = \<lfloor>q\<rfloor>"
  have lo: "of_int f \<le> q" and hi: "q < of_int f + 1"
    by (simp_all add: f_def)
  have k: "real_of_int (n - f) = (q - of_int f) - (q - of_int n)" by simp
  consider (low) "q - of_int f < 1 / 2" | (high) "1 / 2 < q - of_int f"
    | (tie) "q - of_int f = 1 / 2" by linarith
  then show ?thesis
  proof cases
    case low
    have "real_of_int (n - f) < 1" "- 1 < real_of_int (n - f)"
      using assms low lo k by linarith+
    then have "n - f < 1" "- 1 < n - f" by linarith+
    then have "n = f" by linarith
    with low show ?thesis by (simp add: roundHalfEven_def f_def)
  next
    case high
    have "real_of_int (n - f) < 2" "0 < real_of_int (n - f)"
      using assms high hi k by linarith+
    then have "n - f < 2" "0 < n - f" by linarith+
    then have "n = f + 1" by linarith
    with high show ?thesis by (simp add: roundHalfEven_def f_def)
  next
    case tie
    have "real_of_int (n - f) < 1" "0 < real_of_int (n - f)"
      using assms tie k by linarith+
    then have "n - f < 1" "0 < n - f" by linarith+
    then show ?thesis by linarith
  qed
qed

lemma roundHalfEven_ge_floor: "\<lfloor>q\<rfloor> \<le> roundHalfEven q"
  by (simp add: roundHalfEven_def)

lemma ulp64_pos: "0 < ulp64 x"
  by (simp add: ulp64_def pow2_pos)

lemma ulp64_ge_min: "pow2 (- 1074) \<le> ulp64 x"
  unfolding ulp64_def by (rule pow2_mono) simp

lemma ulp64_le: 
  assumes "pow2 (- 1074) \<le> x"
  shows "ulp64 x \<le> x"
proof (cases "binade x \<le> - 1022")
  case True
  then have "ulp64 x = pow2 (- 1074)" by (simp add: ulp64_def max_def)
  with assms show ?thesis by simp
next
  case False
  have pos: "0 < x" using assms pow2_pos [of "- 1074"] by linarith
  from False have "ulp64 x = pow2 (binade x - 52)" by (simp add: ulp64_def max_def)
  also have "\<dots> \<le> pow2 (binade x)" by (rule pow2_mono) simp
  also have "\<dots> \<le> x" using pos by (rule binade_bounds)
  finally show ?thesis .
qed

lemma round64_eval:
  assumes "pow2 e \<le> \<bar>x\<bar>" "\<bar>x\<bar> < pow2 (e + 1)" "- 1022 \<le> e"
    and "\<bar>x / pow2 (e - 52) - of_int n\<bar> < 1 / 2"
  shows "round64 x = of_int n * pow2 (e - 52)"
proof -
  have "binade x = e" using assms(1,2) by (rule binade_eqI)
  then have "ulp64 x = pow2 (e - 52)" using assms(3) by (simp add: ulp64_def max_def)
  then show ?thesis using assms(4) by (simp add: round64_def roundHalfEven_near)
qed

lemma round64_ge_min:
  assumes "pow2 (- 1074) \<le> x"
  shows "pow2 (- 1074) \<le> round64 x"
proof -
  have "1 \<le> x / ulp64 x" using ulp64_le [OF assms] ulp64_pos [of x] by simp
  then have "1 \<le> \<lfloor>x / ulp64 x\<rfloor>" by simp
  then have "1 \<le> roundHalfEven (x / ulp64 x)"
    using roundHalfEven_ge_floor [of "x / ulp64 x"] by linarith
  then have "(1::real) \<le> of_int (roundHalfEven (x / ulp64 x))" by simp
  then have "ulp64 x \<le> round64 x"
    unfolding round64_def using ulp64_pos [of x]
    by (metis less_le_not_le mult.commute mult_le_cancel_left1)
  with ulp64_ge_min [of x] show ?thesis by linarith
qed

lemma representable_ge_min:
  assumes "round64 x = x" "0 < x"
  shows "pow2 (- 1074) \<le> x"
proof -
  have "0 < of_int (roundHalfEven (x / ulp64 x)) * ulp64 x"
    using assms by (simp add: round64_def)
  then have "(0::real) < of_int (roundHalfEven (x / ulp64 x))"
    using ulp64_pos [of x] by (simp add: zero_less_mult_iff)
  then have "0 < roundHalfEven (x / ulp64 x)" by (simp only: of_int_0_less_iff)
  then have "1 \<le> roundHalfEven (x / ulp64 x)" by linarith
  then have "(1::real) \<le> of_int (roundHalfEven (x / ulp64 x))" by simp
  then have "ulp64 x \<le> round64 x"
    unfolding round64_def using ulp64_pos [of x]
    by (metis less_le_not_le mult.commute mult_le_cancel_left1)
  with ulp64_ge_min [of x] assms(1) show ?thesis by linarith
qed

lemma round64_gt_half:
  assumes "1 \<le> x"
  shows "x / 2 < round64 x"
proof -
  have pos: "0 < x" using assms by simp
  let ?b = "binade x"
  have b: "0 \<le> ?b" using assms by (rule binade_nonneg)
  then have u: "ulp64 x = pow2 (?b - 52)" by (simp add: ulp64_def max_def)
  have split: "pow2 ?b = pow2 52 * pow2 (?b - 52)"
    using pow2_add [of 52 "?b - 52"] by simp
  have "pow2 52 * pow2 (?b - 52) \<le> x" using binade_bounds(1) [OF pos] split by simp
  then have "pow2 52 \<le> x / pow2 (?b - 52)"
    using pow2_pos [of "?b - 52"] by (simp add: pos_le_divide_eq)
  moreover have "pow2 52 = of_int (2 ^ 52)" by (simp add: pow2_def)
  ultimately have "of_int (2 ^ 52) \<le> x / ulp64 x" using u by simp
  then have "2 ^ 52 \<le> \<lfloor>x / ulp64 x\<rfloor>" by (simp only: le_floor_iff)
  then have "2 ^ 52 \<le> roundHalfEven (x / ulp64 x)"
    using roundHalfEven_ge_floor [of "x / ulp64 x"] by linarith
  then have "(of_int (2 ^ 52) :: real) \<le> of_int (roundHalfEven (x / ulp64 x))"
    by (simp only: of_int_le_iff)
  then have "pow2 52 * pow2 (?b - 52) \<le> round64 x"
    unfolding round64_def u \<open>pow2 52 = of_int (2 ^ 52)\<close>
    using pow2_pos [of "?b - 52"] by (simp add: mult_right_mono)
  then have "pow2 ?b \<le> round64 x" using split by simp
  moreover have "x < 2 * pow2 ?b"
    using binade_bounds(2) [OF pos] pow2_add [of ?b 1] by (simp add: pow2_def)
  ultimately show ?thesis by linarith
qed

lemma fmul_eval:
  assumes "pow2 e \<le> \<bar>a * b\<bar>" "\<bar>a * b\<bar> < pow2 (e + 1)" "- 1022 \<le> e"
    and "\<bar>a * b / pow2 (e - 52) - of_int n\<bar> < 1 / 2"
    and "\<bar>of_int n * pow2 (e - 52)\<bar> < pow2 1024"
  shows "fmul (Fin a) (Fin b) = Fin (of_int n * pow2 (e - 52))"
  using round64_eval [OF assms(1-4)] assms(5) by (simp add: fmul_def Let_def)

lemma fmul_finite:
  assumes "\<bar>round64 (a * b)\<bar> < pow2 1024"
  shows "fmul (Fin a) (Fin b) = Fin (round64 (a * b))"
  using assms by (simp add: fmul_def Let_def)

subsection \<open>Loops over index ranges\<close>

lemma fold_frame:
  assumes "\<And>i s. i \<in> set xs \<Longrightarrow> g (f i s) = g s"
  shows "g (fold f xs s) = g s"
  using assms by (induction xs arbitrary: s) auto

lemma fold_other:
  assumes "\<And>i s. i \<in> set xs \<Longrightarrow> g (f i s) j = g s j"
  shows "g (fold f xs s) j = g s j"
  using assms by (induction xs arbitrary: s) auto

lemma fold_upt_at:
  assumes "lo \<le> i" "i < hi"
    and "\<And>k s. k \<noteq> i \<Longrightarrow> g (f k s) i = g s i"
  shows "g (fold f [lo..<hi] s) i = g (f i (fold f [lo..<i] s)) i"
proof -
  have "[lo..<hi] = [lo..<i] @ i # [Suc i..<hi]"
    using assms(1,2) by (metis upt_add_eq_append upt_conv_Cons le_Suc_ex less_imp_le_nat)
  then have "fold f [lo..<hi] s = fold f [Suc i..<hi] (f i (fold f [lo..<i] s))"
    by simp
  moreover have "g (fold f [Suc i..<hi] t) i = g t i" for t
    by (rule fold_other) (use assms(3) in auto)
  ultimately show ?thesis by simp
qed

lemma fold_None: "(\<And>i. f i None = None) \<Longrightarrow> fold f xs None = None"
  by (induction xs) auto

subsection \<open>The capacitive correction\<close>

lemma cvStep_other: "j \<noteq> i \<Longrightarrow> cvStep inp d i a j = a j"
  by (simp add: cvStep_def)

lemma cv_fold_prefix:
  assumes "j < m" "m \<le> n" "Suc 0 \<le> m"
  shows "fold (cvStep inp d) [Suc 0..<n] a j = fold (cvStep inp d) [Suc 0..<m] a j"
proof -
  have "[Suc 0..<n] = [Suc 0..<m] @ [m..<n]"
    using assms by (metis le_Suc_ex upt_add_eq_append)
  then have "fold (cvStep inp d) [Suc 0..<n] a =
             fold (cvStep inp d) [m..<n] (fold (cvStep inp d) [Suc 0..<m] a)"
    by simp
  moreover have "fold (cvStep inp d) [m..<n] t j = t j" for t
    by (rule fold_other [where g = "\<lambda>a. a"]) (use assms in \<open>auto simp: cvStep_other\<close>)
  ultimately show ?thesis by simp
qed

lemma cv_fold_zero: "fold (cvStep inp d) [Suc 0..<n] a 0 = a 0"
  by (rule fold_other [where g = "\<lambda>a. a"]) (auto simp: cvStep_other)

lemma cv_fold_rec:
  assumes "Suc 0 \<le> i" "i < n"
  shows "fold (cvStep inp d) [Suc 0..<n] a i =
         fold (cvStep inp d) [Suc 0..<n] a (i - Suc 0) +
           (inp i - fold (cvStep inp d) [Suc 0..<n] a (i - Suc 0)) * d"
proof -
  let ?F = "\<lambda>k. fold (cvStep inp d) [Suc 0..<k] a"
  have "?F n i = cvStep inp d i (?F i) i"
    using assms by (intro fold_upt_at [where g = "\<lambda>a. a"]) (auto simp: cvStep_other)
  moreover have "?F n (i - Suc 0) = ?F i (i - Suc 0)"
    using assms by (intro cv_fold_prefix) auto
  ultimately show ?thesis by (simp add: cvStep_def)
qed

lemma swvStep_other: "j \<noteq> i \<Longrightarrow> swvStep inp d i a j = a j"
  by (simp add: swvStep_def Let_def)

lemma swv_fold_prefix:
  assumes "j < m" "m \<le> n"
  shows "fold (swvStep inp d) [0..<n] a j = fold (swvStep inp d) [0..<m] a j"
proof -
  have "[0..<n] = [0..<m] @ [m..<n]"
    using assms by (metis le_Suc_ex upt_add_eq_append zero_le)
  then have "fold (swvStep inp d) [0..<n] a = fold (swvStep inp d) [m..<n] (fold (swvStep inp d) [0..<m] a)"
    by simp
  moreover have "fold (swvStep inp d) [m..<n] t j = t j" for t
    by (rule fold_other [where g = "\<lambda>a. a"]) (use assms in \<open>auto simp: swvStep_other\<close>)
  ultimately show ?thesis by simp
qed

lemma swv_fold_at:
  assumes "i < n"
  shows "fold (swvStep inp d) [0..<n] a i = swvStep inp d i (fold (swvStep inp d) [0..<i] a) i"
  using assms by (intro fold_upt_at [where g = "\<lambda>a. a"]) (auto simp: swvStep_other)

lemma swv_fold_zero: "0 < n \<Longrightarrow> fold (swvStep inp d) [0..<n] a 0 = inp 0"
  by (simp add: swv_fold_at swvStep_def)

lemma swv_fold_rec:
  assumes "Suc 0 \<le> i" "i < n"
  shows "fold (swvStep inp d) [0..<n] a i =
         fold (swvStep inp d) [0..<n] a (i - Suc 0) +
           (inp i - fold (swvStep inp d) [0..<n] a (i - Suc 0)) * d"
proof -
  let ?F = "\<lambda>k. fold (swvStep inp d) [0..<k] a"
  have "?F n i = swvStep inp d i (?F i) i"
    using assms by (intro swv_fold_at) auto
  moreover have "?F n (i - Suc 0) = ?F i (i - Suc 0)"
    using assms by (intro swv_fold_prefix) auto
  ultimately show ?thesis using assms by (simp add: swvStep_def Let_def)
qed

lemma current_fold_at:
  assumes "i < n"
  shows "fold (currentStep R raw corr) [0..<n] a i = (raw i - corr i) / R"
proof -
  have "fold (currentStep R raw corr) [0..<n] a i =
        currentStep R raw corr i (fold (currentStep R raw corr) [0..<i] a) i"
    using assms by (intro fold_upt_at [where g = "\<lambda>a. a"]) (auto simp: currentStep_def)
  then show ?thesis by (simp add: currentStep_def)
qed

subsection \<open>Allocation and the final conversion\<close>

lemma copy_fold_cur: "cur (fold (copyStep p) xs s) = cur s"
  by (rule fold_frame) (simp add: copyStep_def)

lemma zero_fold_averaged: "averagedPulseSequence (fold zeroStep xs s) = averagedPulseSequence s"
  by (rule fold_frame) (simp add: zeroStep_def)

lemma zero_fold_overcorrected:
  "overcorrectedPulseSequence (fold zeroStep xs s) = overcorrectedPulseSequence s"
  by (rule fold_frame) (simp add: zeroStep_def)

lemma allocate_averaged:
  "averagedPulseSequence (allocate p heap) j =
     (if j < lenOfPulseSequence p then DLCcorrectedSequence p j else averagedPulseSequence heap j)"
proof (cases "j < lenOfPulseSequence p")
  case True
  then have "averagedPulseSequence (fold (copyStep p) [0..<lenOfPulseSequence p] heap) j =
      averagedPulseSequence (copyStep p j (fold (copyStep p) [0..<j] heap)) j"
    by (intro fold_upt_at) (auto simp: copyStep_def)
  with True show ?thesis by (simp add: allocate_def zero_fold_averaged copyStep_def)
next
  case False
  then have "averagedPulseSequence (fold (copyStep p) [0..<lenOfPulseSequence p] heap) j =
      averagedPulseSequence heap j"
    by (intro fold_other) (auto simp: copyStep_def)
  with False show ?thesis by (simp add: allocate_def zero_fold_averaged)
qed

lemma allocate_overcorrected:
  "overcorrectedPulseSequence (allocate p heap) j =
     (if j < lenOfPulseSequence p then DLCcorrectedSequence p j
      else overcorrectedPulseSequence heap j)"
proof (cases "j < lenOfPulseSequence p")
  case True
  then have "overcorrectedPulseSequence (fold (copyStep p) [0..<lenOfPulseSequence p] heap) j =
      overcorrectedPulseSequence (copyStep p j (fold (copyStep p) [0..<j] heap)) j"
    by (intro fold_upt_at) (auto simp: copyStep_def)
  with True show ?thesis by (simp add: allocate_def zero_fold_overcorrected copyStep_def)
next
  case False
  then have "overcorrectedPulseSequence (fold (copyStep p) [0..<lenOfPulseSequence p] heap) j =
      overcorrectedPulseSequence heap j"
    by (intro fold_other) (auto simp: copyStep_def)
  with False show ?thesis by (simp add: allocate_def zero_fold_overcorrected)
qed

lemma allocate_cur:
  "cur (allocate p heap) j = (if j < lenOfPulseSequence p then Fin 0 else cur heap j)"
proof (cases "j < lenOfPulseSequence p")
  case True
  then have "cur (fold zeroStep [0..<lenOfPulseSequence p] s) j =
      cur (zeroStep j (fold zeroStep [0..<j] s)) j" for s
    by (intro fold_upt_at) (auto simp: zeroStep_def)
  with True show ?thesis by (simp add: allocate_def zeroStep_def)
next
  case False
  then have "cur (fold zeroStep [0..<lenOfPulseSequence p] s) j = cur s j" for s
    by (intro fold_other) (auto simp: zeroStep_def)
  with False show ?thesis by (simp add: allocate_def copy_fold_cur)
qed

lemma allocate_halflife:
  "forwardKhalflife (allocate p heap) = forwardKhalflife heap"
  "backwardKhalflife (allocate p heap) = backwardKhalflife heap"
  unfolding allocate_def
  by (subst fold_frame, simp add: zeroStep_def, subst fold_frame, simp add: copyStep_def, rule refl)+

lemma ohmsLaw_averaged:
  assumes "j < lenOfPulseSequence p"
  shows "averagedPulseSequence (ohmsLaw p st) j =
         (inputPulseSequence p j - averagedPulseSequence st j) / resistance p"
proof -
  have "averagedPulseSequence (fold (ohmStep p) [0..<lenOfPulseSequence p] st) j =
        averagedPulseSequence (ohmStep p j (fold (ohmStep p) [0..<j] st)) j"
    using assms by (intro fold_upt_at) (auto simp: ohmStep_def)
  moreover have "averagedPulseSequence (fold (ohmStep p) [0..<j] st) j = averagedPulseSequence st j"
    by (rule fold_other) (auto simp: ohmStep_def)
  ultimately show ?thesis by (simp add: ohmsLaw_def ohmStep_def)
qed

subsection \<open>Overpotentials, rate constants, sums and ratios\<close>

lemma computeOverpotentials_frame:
  "averagedPulseSequence (computeOverpotentials p i st) = averagedPulseSequence st"
  "overcorrectedPulseSequence (computeOverpotentials p i st) = overcorrectedPulseSequence st"
  "cur (computeOverpotentials p i st) = cur st"
  "forwardKhalflife (computeOverpotentials p i st) = forwardKhalflife st"
  "backwardKhalflife (computeOverpotentials p i st) = backwardKhalflife st"
  "forwardK (computeOverpotentials p i st) = forwardK st"
  "backwardK (computeOverpotentials p i st) = backwardK st"
  unfolding computeOverpotentials_def
  by (rule fold_frame, simp add: overpotentialStep_def)+

lemma computeOverpotentials_at:
  assumes "j < lenOfPulseSequence p"
  shows "overpotentials (computeOverpotentials p i st) j =
         averagedPulseSequence st j - redoxPotArray p i"
proof -
  let ?F = "\<lambda>n. fold (overpotentialStep p i) [0..<n] st"
  have "overpotentials (?F (lenOfPulseSequence p)) j = overpotentials (overpotentialStep p i j (?F j)) j"
    using assms by (intro fold_upt_at) (auto simp: overpotentialStep_def)
  moreover have "averagedPulseSequence (?F j) = averagedPulseSequence st"
    by (rule fold_frame) (simp add: overpotentialStep_def)
  ultimately show ?thesis by (simp add: computeOverpotentials_def overpotentialStep_def)
qed

lemma computeRates_frame:
  "averagedPulseSequence (computeRates p i st) = averagedPulseSequence st"
  "overcorrectedPulseSequence (computeRates p i st) = overcorrectedPulseSequence st"
  "cur (computeRates p i st) = cur st"
  "overpotentials (computeRates p i st) = overpotentials st"
  unfolding computeRates_def
  by (rule fold_frame, simp add: rateStep_def Let_def)+

lemma rate_fold_overpotentials: "overpotentials (fold (rateStep p i) xs st) = overpotentials st"
  by (rule fold_frame) (simp add: rateStep_def Let_def)

lemma computeRates_at:
  assumes "j < lenOfPulseSequence p"
  shows "forwardK (computeRates p i st) j =
           kineticConstArray p i *
             dexp (overpotentials st j * FbyRT * zArray p i * symCoefArray p i)"
    and "backwardK (computeRates p i st) j =
           kineticConstArray p i *
             dexp ((- overpotentials st j) * FbyRT * zArray p i * (Fin 1 - symCoefArray p i))"
    and "forwardKhalflife (computeRates p i st) j = ln2 / forwardK (computeRates p i st) j"
    and "backwardKhalflife (computeRates p i st) j = ln2 / backwardK (computeRates p i st) j"
proof -
  let ?F = "\<lambda>n. fold (rateStep p i) [0..<n] st"
  let ?N = "lenOfPulseSequence p"
  have a: "forwardK (?F ?N) j = forwardK (rateStep p i j (?F j)) j"
    using assms by (intro fold_upt_at) (auto simp: rateStep_def Let_def)
  have b: "backwardK (?F ?N) j = backwardK (rateStep p i j (?F j)) j"
    using assms by (intro fold_upt_at) (auto simp: rateStep_def Let_def)
  have c: "forwardKhalflife (?F ?N) j = forwardKhalflife (rateStep p i j (?F j)) j"
    using assms by (intro fold_upt_at) (auto simp: rateStep_def Let_def)
  have d: "backwardKhalflife (?F ?N) j = backwardKhalflife (rateStep p i j (?F j)) j"
    using assms by (intro fold_upt_at) (auto simp: rateStep_def Let_def)
  show fk: "forwardK (computeRates p i st) j =
           kineticConstArray p i *
             dexp (overpotentials st j * FbyRT * zArray p i * symCoefArray p i)"
    using a by (simp add: computeRates_def rateStep_def Let_def rate_fold_overpotentials)
  show bk: "backwardK (computeRates p i st) j =
           kineticConstArray p i *
             dexp ((- overpotentials st j) * FbyRT * zArray p i * (Fin 1 - symCoefArray p i))"
    using b by (simp add: computeRates_def rateStep_def Let_def rate_fold_overpotentials)
  show "forwardKhalflife (computeRates p i st) j = ln2 / forwardK (computeRates p i st) j"
    unfolding fk using c
    by (simp add: computeRates_def rateStep_def Let_def rate_fold_overpotentials)
  show "backwardKhalflife (computeRates p i st) j = ln2 / backwardK (computeRates p i st) j"
    unfolding bk using d
    by (simp add: computeRates_def rateStep_def Let_def rate_fold_overpotentials)
qed

lemma computeRates_beyond:
  assumes "lenOfPulseSequence p \<le> j"
  shows "forwardKhalflife (computeRates p i st) j = forwardKhalflife st j"
    and "backwardKhalflife (computeRates p i st) j = backwardKhalflife st j"
  unfolding computeRates_def
  by (rule fold_other, use assms in \<open>simp add: rateStep_def Let_def\<close>)+

lemma computeSumRatio_frame:
  "averagedPulseSequence (computeSumRatio p st) = averagedPulseSequence st"
  "overcorrectedPulseSequence (computeSumRatio p st) = overcorrectedPulseSequence st"
  "cur (computeSumRatio p st) = cur st"
  "overpotentials (computeSumRatio p st) = overpotentials st"
  unfolding computeSumRatio_def
  by (rule fold_frame, simp add: sumRatioStep_def Let_def)+

lemma rateState_frame:
  "averagedPulseSequence (rateState p i st) = averagedPulseSequence st"
  "overcorrectedPulseSequence (rateState p i st) = overcorrectedPulseSequence st"
  "cur (rateState p i st) = cur st"
  by (simp_all add: rateState_def computeRates_frame computeOverpotentials_frame)

subsection \<open>The two scans\<close>

lemma forwardScan_stop: "\<not> j < N \<Longrightarrow> forwardScan hl thr N j = (None, [])"
  by (subst forwardScan.simps) simp

lemma forwardScan_hit: "j < N \<Longrightarrow> hl j > thr \<Longrightarrow> forwardScan hl thr N j = (Some j, [j])"
  by (subst forwardScan.simps) simp

lemma forwardScan_next:
  "j < N \<Longrightarrow> \<not> hl j > thr \<Longrightarrow>
   forwardScan hl thr N j =
     (fst (forwardScan hl thr N (Suc j)), j # snd (forwardScan hl thr N (Suc j)))"
  by (subst forwardScan.simps) (simp split: prod.splits)

lemma forwardScan_reads: "k \<in> set (snd (forwardScan hl thr N j)) \<Longrightarrow> j \<le> k \<and> k < N"
proof (induction hl thr N j rule: forwardScan.induct)
  case (1 hl thr N j)
  consider "\<not> j < N" | "j < N" "hl j > thr" | "j < N" "\<not> hl j > thr" by blast
  then show ?case
  proof cases
    case 1
    then show ?thesis using "1.prems" by (simp add: forwardScan_stop)
  next
    case 2
    then show ?thesis using "1.prems" by (simp add: forwardScan_hit)
  next
    case 3
    then have "k = j \<or> k \<in> set (snd (forwardScan hl thr N (Suc j)))"
      using "1.prems" by (simp add: forwardScan_next)
    then show ?thesis using "1.IH" 3 by auto
  qed
qed

lemma forwardScan_found:
  "fst (forwardScan hl thr N j) \<noteq> None \<longleftrightarrow> (\<exists>k. j \<le> k \<and> k < N \<and> hl k > thr)"
proof (induction hl thr N j rule: forwardScan.induct)
  case (1 hl thr N j)
  consider "\<not> j < N" | "j < N" "hl j > thr" | "j < N" "\<not> hl j > thr" by blast
  then show ?case
  proof cases
    case 1
    then show ?thesis by (auto simp: forwardScan_stop)
  next
    case 2
    then show ?thesis by (auto simp: forwardScan_hit)
  next
    case 3
    have "(\<exists>k. j \<le> k \<and> k < N \<and> hl k > thr) \<longleftrightarrow> (\<exists>k. Suc j \<le> k \<and> k < N \<and> hl k > thr)"
      using 3 by (metis Suc_leD Suc_leI le_neq_implies_less)
    then show ?thesis using "1.IH" 3 by (simp add: forwardScan_next)
  qed
qed

lemma forwardScan_Some:
  "fst (forwardScan hl thr N j) = Some k \<Longrightarrow> j \<le> k \<and> k < N \<and> hl k > thr"
proof (induction hl thr N j rule: forwardScan.induct)
  case (1 hl thr N j)
  consider "\<not> j < N" | "j < N" "hl j > thr" | "j < N" "\<not> hl j > thr" by blast
  then show ?case
  proof cases
    case 1
    then show ?thesis using "1.prems" by (simp add: forwardScan_stop)
  next
    case 2
    then show ?thesis using "1.prems" by (auto simp: forwardScan_hit)
  next
    case 3
    then have "fst (forwardScan hl thr N (Suc j)) = Some k"
      using "1.prems" by (simp add: forwardScan_next)
    then show ?thesis using "1.IH" 3 by auto
  qed
qed

lemma reverseScan_found:
  "fst (reverseScan hl thr N) \<noteq> None \<longleftrightarrow> (\<exists>k. 0 < k \<and> k \<le> N \<and> hl k > thr)"
proof (induction N)
  case 0
  then show ?case by simp
next
  case (Suc N)
  show ?case
  proof (cases "hl (Suc N) > thr")
    case True
    then show ?thesis by auto
  next
    case False
    then have "fst (reverseScan hl thr (Suc N)) = fst (reverseScan hl thr N)"
      by (simp split: prod.splits)
    moreover have "(\<exists>k. 0 < k \<and> k \<le> Suc N \<and> hl k > thr) \<longleftrightarrow> (\<exists>k. 0 < k \<and> k \<le> N \<and> hl k > thr)"
      using False by (metis le_SucE le_SucI)
    ultimately show ?thesis using Suc by simp
  qed
qed

lemma reverseScan_first_read: "0 < N \<Longrightarrow> hd (snd (reverseScan hl thr N)) = N"
  by (cases N) (auto split: prod.splits)

lemma reverseScan_reads_nonempty: "0 < N \<Longrightarrow> snd (reverseScan hl thr N) \<noteq> []"
  by (cases N) (auto split: prod.splits)

lemma reverseScan_at_end: "0 < N \<Longrightarrow> hl N > thr \<Longrightarrow> fst (reverseScan hl thr N) = Some N"
  by (cases N) auto

lemma found_setMax_setMin:
  "LookupThresholdFound (setMax b (setMin a w)) \<longleftrightarrow>
     LookupThresholdFound w \<or> a \<noteq> None \<or> b \<noteq> None"
  by (auto simp: setMax_def setMin_def split: option.splits)

lemma min_setMax_setMin:
  "lookupMinTreshhold (setMax b (setMin a w)) =
     (case a of None \<Rightarrow> lookupMinTreshhold w | Some j \<Rightarrow> j)"
  by (auto simp: setMax_def setMin_def split: option.splits)

lemma max_setMax_setMin:
  "lookupMaxTreshold (setMax b (setMin a w)) =
     (case b of None \<Rightarrow> lookupMaxTreshold w | Some j \<Rightarrow> j)"
  by (auto simp: setMax_def setMin_def split: option.splits)

lemma forwardScan_found_ex:
  "(\<exists>y. fst (forwardScan hl thr N 0) = Some y) \<longleftrightarrow> (\<exists>k<N. hl k > thr)"
  using forwardScan_found [of hl thr N 0] by auto

lemma reverseScan_found_ex:
  "(\<exists>y. fst (reverseScan hl thr N) = Some y) \<longleftrightarrow> (\<exists>k>0. k \<le> N \<and> hl k > thr)"
  using reverseScan_found [of hl thr N] by auto

lemma windowDetection_found:
  "LookupThresholdFound (windowDetection p direction i st) \<longleftrightarrow>
     (if \<not> direction then
        (\<exists>k. k < lenOfPulseSequence p \<and>
              forwardKhalflife st k > timeBenchmark p * (Fin 1 - symCoefArray p i)) \<or>
        (\<exists>k. 0 < k \<and> k \<le> lenOfPulseSequence p \<and>
              backwardKhalflife st k > timeBenchmark p * symCoefArray p i)
      else
        (\<exists>k. k < lenOfPulseSequence p \<and>
              backwardKhalflife st k > timeBenchmark p * symCoefArray p i) \<or>
        (\<exists>k. 0 < k \<and> k \<le> lenOfPulseSequence p \<and>
              forwardKhalflife st k > timeBenchmark p * (Fin 1 - symCoefArray p i)))"
  by (simp add: windowDetection_def windowScan_def Let_def found_setMax_setMin
      forwardScan_found_ex reverseScan_found_ex)

lemma windowDetection_min_less:
  assumes "0 < lenOfPulseSequence p"
  shows "lookupMinTreshhold (windowDetection p direction i st) < lenOfPulseSequence p"
  using assms
  by (auto simp: windowDetection_def windowScan_def Let_def min_setMax_setMin
      split: option.splits dest: forwardScan_Some)

subsection \<open>The current march and the two correction passes\<close>

lemma marchStep_snd:
  "snd (marchStep p i c n x) =
     (snd x)\<lparr>cur := (cur (snd x))(n := zArray p i * const_f *
        (fst x * forwardK (snd x) n - (c - fst x) * backwardK (snd x) n))\<rparr>"
  by (cases x) (simp add: marchStep_def Let_def)

lemma currentMarch_frame:
  "averagedPulseSequence (snd (currentMarch p i c w x)) = averagedPulseSequence (snd x)"
  "overcorrectedPulseSequence (snd (currentMarch p i c w x)) = overcorrectedPulseSequence (snd x)"
  unfolding currentMarch_def
  by (rule fold_frame [where g = "\<lambda>x. averagedPulseSequence (snd x)"],
      simp add: marchStep_snd,
      rule fold_frame [where g = "\<lambda>x. overcorrectedPulseSequence (snd x)"],
      simp add: marchStep_snd)

lemma currentMarch_cur_other:
  assumes "n \<le> lookupMinTreshhold w \<or> lookupMaxTreshold w < n"
  shows "cur (snd (currentMarch p i c w x)) n = cur (snd x) n"
  unfolding currentMarch_def
  by (rule fold_other [where g = "\<lambda>x. cur (snd x)"]) (use assms in \<open>auto simp: marchStep_snd\<close>)

lemma overcorrectionPass_frame:
  "cur (overcorrectionPass p i w st) = cur st"
  "averagedPulseSequence (overcorrectionPass p i w st) = averagedPulseSequence st"
  unfolding overcorrectionPass_def
  by (rule fold_frame, simp add: overcorrectionStep_def Let_def)+

lemma overcorrection_fold_cur: "cur (fold (overcorrectionStep p i) xs st) = cur st"
  by (rule fold_frame) (simp add: overcorrectionStep_def Let_def)

lemma overcorrectionPass_at:
  assumes "lookupMinTreshhold w \<le> m" "m < lookupMaxTreshold w"
  shows "overcorrectedPulseSequence (overcorrectionPass p i w st) m =
         overcorrectedPulseSequence st m - cur st m * resistance p"
proof -
  let ?F = "\<lambda>n. fold (overcorrectionStep p i) [lookupMinTreshhold w..<n] st"
  have "overcorrectedPulseSequence (?F (lookupMaxTreshold w)) m =
        overcorrectedPulseSequence (overcorrectionStep p i m (?F m)) m"
    using assms by (intro fold_upt_at) (auto simp: overcorrectionStep_def Let_def)
  moreover have "overcorrectedPulseSequence (?F m) m = overcorrectedPulseSequence st m"
    by (rule fold_other) (auto simp: overcorrectionStep_def Let_def)
  ultimately show ?thesis
    by (simp add: overcorrectionPass_def overcorrectionStep_def Let_def overcorrection_fold_cur)
qed

lemma averagingPass_frame: "cur (averagingPass p i w st) = cur st"
  unfolding averagingPass_def
  by (rule fold_frame) (simp add: averagingStep_def Let_def)

lemma averaging_fold_cur: "cur (fold (averagingStep p i) xs st) = cur st"
  by (rule fold_frame) (simp add: averagingStep_def Let_def)

lemma averagingPass_at:
  assumes "lookupMinTreshhold w \<le> m" "m < lookupMaxTreshold w"
  shows "averagedPulseSequence (averagingPass p i w st) m =
           (overcorrectedPulseSequence st m - cur st m * resistance p +
              overcorrectedPulseSequence st m) / Fin 2"
    and "overcorrectedPulseSequence (averagingPass p i w st) m =
           averagedPulseSequence (averagingPass p i w st) m"
proof -
  let ?F = "\<lambda>n. fold (averagingStep p i) [lookupMinTreshhold w..<n] st"
  have a: "averagedPulseSequence (?F (lookupMaxTreshold w)) m =
        averagedPulseSequence (averagingStep p i m (?F m)) m"
    using assms by (intro fold_upt_at) (auto simp: averagingStep_def Let_def)
  have b: "overcorrectedPulseSequence (?F (lookupMaxTreshold w)) m =
        overcorrectedPulseSequence (averagingStep p i m (?F m)) m"
    using assms by (intro fold_upt_at) (auto simp: averagingStep_def Let_def)
  have c: "overcorrectedPulseSequence (?F m) m = overcorrectedPulseSequence st m"
    by (rule fold_other) (auto simp: averagingStep_def Let_def)
  show "averagedPulseSequence (averagingPass p i w st) m =
           (overcorrectedPulseSequence st m - cur st m * resistance p +
              overcorrectedPulseSequence st m) / Fin 2"
    using a c by (simp add: averagingPass_def averagingStep_def Let_def averaging_fold_cur)
  show "overcorrectedPulseSequence (averagingPass p i w st) m =
           averagedPulseSequence (averagingPass p i w st) m"
    using a b by (simp add: averagingPass_def averagingStep_def Let_def)
qed

subsection \<open>Slices, components and when they return\<close>

lemma sliceStep_None: "sliceStep p i c w j None = None"
  by (simp add: sliceStep_def)

lemma sliceStep_Some: "sliceStep p i c w j (Some s) = relaxationSlice p i c w j s"
  by (simp add: sliceStep_def)

lemma relaxationSlice_defined:
  "(\<exists>s'. relaxationSlice p i c w j s = Some s') \<longleftrightarrow> toInt (zArray p i) \<noteq> None"
  by (auto simp: relaxationSlice_def Let_def split: option.splits)

lemma slices_defined:
  assumes "toInt (zArray p i) \<noteq> None"
  shows "\<exists>s'. fold (sliceStep p i c w) xs (Some s) = Some s'"
proof (induction xs arbitrary: s)
  case Nil
  then show ?case by simp
next
  case (Cons j xs)
  obtain s1 where "relaxationSlice p i c w j s = Some s1"
    using assms relaxationSlice_defined by blast
  then show ?case using Cons by (simp add: sliceStep_Some)
qed

lemma slices_undefined:
  assumes "toInt (zArray p i) = None" "xs \<noteq> []"
  shows "fold (sliceStep p i c w) xs (Some s) = None"
proof -
  obtain j ys where "xs = j # ys" using assms(2) by (cases xs) auto
  moreover have "relaxationSlice p i c w j s = None"
    using assms(1) by (simp add: relaxationSlice_def)
  ultimately show ?thesis
    by (simp add: sliceStep_Some fold_None sliceStep_None)
qed

lemma slices_not_found:
  assumes "\<not> LookupThresholdFound w"
    and "fold (sliceStep p i c w) xs (Some s) = Some s'"
  shows "s' = s"
  using assms(2)
proof (induction xs arbitrary: s)
  case Nil
  then show ?case by simp
next
  case (Cons j xs)
  show ?case
  proof (cases "toInt (zArray p i)")
    case None
    then have "fold (sliceStep p i c w) (j # xs) (Some s) = None"
      by (intro slices_undefined) auto
    with Cons.prems show ?thesis by simp
  next
    case (Some z)
    then have "relaxationSlice p i c w j s = Some s"
      using assms(1) by (simp add: relaxationSlice_def Let_def)
    with Cons show ?thesis by (simp add: sliceStep_Some)
  qed
qed

lemma processComponent_defined:
  "(\<exists>st'. processComponent p direction i st = Some st') \<longleftrightarrow> conversionsDefined p i"
proof (cases "loadingDivider (loadingsArray p i)")
  case None
  then show ?thesis by (simp add: processComponent_def conversionsDefined_def Let_def)
next
  case (Some d)
  show ?thesis
  proof (cases "0 < d")
    case False
    then show ?thesis using Some
      by (simp add: processComponent_def conversionsDefined_def Let_def relaxationLoop_def)
  next
    case True
    then have ne: "[0..<nat d] \<noteq> []" by simp
    show ?thesis
    proof (cases "toInt (zArray p i)")
      case None
      then show ?thesis using Some True slices_undefined [OF None ne]
        by (simp add: processComponent_def conversionsDefined_def Let_def relaxationLoop_def)
    next
      case (Some z)
      then have "toInt (zArray p i) \<noteq> None" by simp
      from slices_defined [OF this] show ?thesis using \<open>loadingDivider _ = Some d\<close> True Some
        by (simp add: processComponent_def conversionsDefined_def Let_def relaxationLoop_def)
    qed
  qed
qed

lemma componentStep_Some:
  "componentStep p i (Some s) = processComponent p (positiveScanDirection p) i s"
  by (simp add: componentStep_def)

lemma components_defined:
  assumes "\<forall>i<n. conversionsDefined p i"
  shows "\<exists>st'. fold (componentStep p) [0..<n] (Some st) = Some st'"
  using assms
proof (induction n)
  case 0
  then show ?case by simp
next
  case (Suc n)
  then obtain s1 where "fold (componentStep p) [0..<n] (Some st) = Some s1" by auto
  moreover obtain s2 where "processComponent p (positiveScanDirection p) n s1 = Some s2"
    using Suc.prems processComponent_defined by blast
  ultimately show ?case by (simp add: componentStep_Some)
qed

lemma processComponents_defined:
  "\<forall>i<sizeOfInputArray p. conversionsDefined p i \<Longrightarrow> \<exists>st. processComponents p heap = Some st"
  unfolding processComponents_def by (rule components_defined)

lemma processComponent_not_found:
  assumes "\<not> LookupThresholdFound (componentWindow p direction i st)"
    and "processComponent p direction i st = Some st'"
  shows "st' = computeSumRatio p (rateState p i st)"
proof (cases "loadingDivider (loadingsArray p i)")
  case None
  with assms(2) show ?thesis by (simp add: processComponent_def Let_def)
next
  case (Some d)
  with assms(2) have "fold (sliceStep p i (truncatedComponent (loadingsArray p i) d)
                        (windowDetection p direction i (rateState p i st)))
                      [0..<nat d] (Some (computeSumRatio p (rateState p i st))) = Some st'"
    by (simp add: processComponent_def Let_def relaxationLoop_def)
  with assms(1) show ?thesis
    unfolding componentWindow_def by (rule slices_not_found)
qed

subsection \<open>Half-lives and the rate constant\<close>

lemma rateState_overpotentials:
  "j < lenOfPulseSequence p \<Longrightarrow>
   overpotentials (rateState p i st) j = averagedPulseSequence st j - redoxPotArray p i"
  by (simp add: rateState_def computeRates_frame computeOverpotentials_at)

lemma rateState_rates:
  assumes "j < lenOfPulseSequence p"
  shows "forwardK (rateState p i st) j =
           kineticConstArray p i *
             dexp (overpotentials (rateState p i st) j * FbyRT * zArray p i * symCoefArray p i)"
    and "backwardK (rateState p i st) j =
           kineticConstArray p i *
             dexp ((- overpotentials (rateState p i st) j) * FbyRT * zArray p i *
                   (Fin 1 - symCoefArray p i))"
    and "forwardKhalflife (rateState p i st) j = ln2 / forwardK (rateState p i st) j"
    and "backwardKhalflife (rateState p i st) j = ln2 / backwardK (rateState p i st) j"
  using assms by (simp_all add: rateState_def computeRates_at computeRates_frame)

lemma rateState_halflife:
  assumes "j < lenOfPulseSequence p"
  shows "forwardKhalflife (rateState p i st) j =
           ln2 / (kineticConstArray p i *
             dexp ((averagedPulseSequence st j - redoxPotArray p i) * FbyRT * zArray p i *
                   symCoefArray p i))"
    and "backwardKhalflife (rateState p i st) j =
           ln2 / (kineticConstArray p i *
             dexp ((- (averagedPulseSequence st j - redoxPotArray p i)) * FbyRT * zArray p i *
                   (Fin 1 - symCoefArray p i)))"
  using assms by (simp_all add: rateState_rates rateState_overpotentials)

lemma rateState_halflife_beyond:
  assumes "lenOfPulseSequence p \<le> j"
  shows "forwardKhalflife (rateState p i st) j = forwardKhalflife st j"
    and "backwardKhalflife (rateState p i st) j = backwardKhalflife st j"
  using assms by (simp_all add: rateState_def computeRates_beyond computeOverpotentials_frame)

lemma halflife_antitone:
  assumes "Fin 0 < k" "k < k'" "thr < ln2 / (k' * dexp x)"
  shows "thr < ln2 / (k * dexp x)"
proof -
  obtain a where k: "k = Fin a" "0 < a"
    using assms(1,2) by (cases k; cases k') (auto simp: less_double_def)
  define c :: real where "c = 0.69314718056"
  have c: "ln2 = Fin c" "0 < c"
    by (simp_all add: ln2_def c_def)
  consider (zero) "dexp x = Fin 0" | (pos) e where "dexp x = Fin e" "0 < e"
    | (inf) "dexp x = PInf" | (nan) "dexp x = NaN"
    by (cases x) auto
  then show ?thesis
  proof cases
    case zero
    with assms k c(2) show ?thesis
      by (cases k'; cases thr) (auto simp: double_ops signedInf_def c(1))
  next
    case (pos e)
    have mono: "t < c / (a' * e) \<Longrightarrow> t < c / (a * e)" if "a < a'" for t a' :: real
    proof -
      have "c / (a' * e) \<le> c / (a * e)"
        using that k(2) pos(2) c(2) by (intro divide_left_mono) auto
      then show "t < c / (a' * e) \<Longrightarrow> t < c / (a * e)" by simp
    qed
    have positive: "t < 0 \<Longrightarrow> t < c / (a * e)" for t :: real
    proof -
      have "0 < c / (a * e)" using k(2) pos(2) c(2) by simp
      then show "t < 0 \<Longrightarrow> t < c / (a * e)" by simp
    qed
    from pos assms k c(2) mono positive show ?thesis
      by (cases k'; cases thr) (auto simp: double_ops signedInf_def c(1) split: if_splits)
  next
    case inf
    with assms k c(2) show ?thesis
      by (cases k'; cases thr) (auto simp: double_ops signedInf_def c(1) split: if_splits)
  next
    case nan
    with assms k c(2) show ?thesis
      by (cases k'; cases thr) (auto simp: double_ops signedInf_def c(1))
  qed
qed

subsection \<open>The current buffer across slices\<close>

lemma relaxationSlice_cur_other:
  assumes "relaxationSlice p i c w j st = Some st'"
    and "n \<le> lookupMinTreshhold w \<or> lookupMaxTreshold w < n"
  shows "cur st' n = cur st n"
  using assms
  by (auto simp: relaxationSlice_def Let_def overcorrectionPass_frame averagingPass_frame
      currentMarch_cur_other split: option.splits if_splits)

lemma slices_cur_other:
  assumes "fold (sliceStep p i c w) xs (Some s) = Some s'"
    and "n \<le> lookupMinTreshhold w \<or> lookupMaxTreshold w < n"
  shows "cur s' n = cur s n"
  using assms(1)
proof (induction xs arbitrary: s)
  case Nil
  then show ?case by simp
next
  case (Cons j xs)
  show ?case
  proof (cases "relaxationSlice p i c w j s")
    case None
    with Cons.prems show ?thesis by (simp add: sliceStep_Some fold_None sliceStep_None)
  next
    case (Some s1)
    with Cons.prems have "fold (sliceStep p i c w) xs (Some s1) = Some s'"
      by (simp add: sliceStep_Some)
    then have "cur s' n = cur s1 n" by (rule Cons.IH)
    also have "cur s1 n = cur s n"
      using Some assms(2) by (rule relaxationSlice_cur_other)
    finally show ?thesis .
  qed
qed

lemma processComponent_cur_other:
  assumes "processComponent p direction i st = Some st'"
    and "n \<le> lookupMinTreshhold (componentWindow p direction i st) \<or>
         lookupMaxTreshold (componentWindow p direction i st) < n"
  shows "cur st' n = cur st n"
proof (cases "loadingDivider (loadingsArray p i)")
  case None
  with assms(1) show ?thesis by (simp add: processComponent_def Let_def)
next
  case (Some d)
  with assms(1) have "fold (sliceStep p i (truncatedComponent (loadingsArray p i) d)
                        (componentWindow p direction i st))
                      [0..<nat d] (Some (computeSumRatio p (rateState p i st))) = Some st'"
    by (simp add: processComponent_def Let_def relaxationLoop_def componentWindow_def)
  from slices_cur_other [OF this assms(2)] show ?thesis
    by (simp add: computeSumRatio_frame rateState_frame)
qed

lemma relaxationSlice_at_min:
  assumes "LookupThresholdFound w" "lookupMinTreshhold w < lookupMaxTreshold w"
    and "relaxationSlice p i c w j st = Some st'"
  shows "if j mod 2 = 0
         then overcorrectedPulseSequence st' (lookupMinTreshhold w) =
                overcorrectedPulseSequence st (lookupMinTreshhold w) -
                  cur st (lookupMinTreshhold w) * resistance p
         else averagedPulseSequence st' (lookupMinTreshhold w) =
                (overcorrectedPulseSequence st (lookupMinTreshhold w) -
                   cur st (lookupMinTreshhold w) * resistance p +
                 overcorrectedPulseSequence st (lookupMinTreshhold w)) / Fin 2"
  using assms
  by (auto simp: relaxationSlice_def Let_def overcorrectionPass_at averagingPass_at
      currentMarch_frame currentMarch_cur_other split: option.splits if_splits)

subsection \<open>The concrete inputs\<close>

lemma example_halflife:
  assumes "lenOfPulseSequence p = 2" "zArray p 0 = Fin 1" "symCoefArray p 0 = Fin (1 / 2)"
    and "redoxPotArray p 0 = Fin 0" "DLCcorrectedSequence p = zeroArray"
    and "kineticConstArray p 0 = Fin a" "0 < a"
  shows "forwardKhalflife (rateState p 0 (allocate p zeroHeap)) j =
           (if j < 2 then Fin (0.69314718056 / a) else Fin 0)"
    and "backwardKhalflife (rateState p 0 (allocate p zeroHeap)) j =
           (if j < 2 then Fin (0.69314718056 / a) else Fin 0)"
proof -
  have c: "FbyRT = Fin (96485 / (8.3145 * 295))"
    by (simp add: FbyRT_def const_f_def const_rt_def const_r_def const_t_def double_ops)
  have arg: "(Fin 0 - Fin 0) * FbyRT * Fin 1 * Fin (1 / 2) = Fin 0"
    "(- (Fin 0 - Fin 0)) * FbyRT * Fin 1 * (Fin 1 - Fin (1 / 2)) = Fin 0"
    by (simp_all add: c double_ops)
  have hl: "ln2 / (Fin a * Fin 1) = Fin (0.69314718056 / a)"
    using assms(7) by (simp add: ln2_def double_ops)
  show "forwardKhalflife (rateState p 0 (allocate p zeroHeap)) j =
           (if j < 2 then Fin (0.69314718056 / a) else Fin 0)"
    using assms(1-6)
    by (simp add: rateState_halflife rateState_halflife_beyond allocate_averaged allocate_halflife
        zeroArray_def zeroHeap_def arg hl)
  show "backwardKhalflife (rateState p 0 (allocate p zeroHeap)) j =
           (if j < 2 then Fin (0.69314718056 / a) else Fin 0)"
    using assms(1-6)
    by (simp add: rateState_halflife rateState_halflife_beyond allocate_averaged allocate_halflife
        zeroArray_def zeroHeap_def arg hl)
qed

lemma example_found:
  assumes "lenOfPulseSequence p = 2" "zArray p 0 = Fin 1" "symCoefArray p 0 = Fin (1 / 2)"
    and "redoxPotArray p 0 = Fin 0" "DLCcorrectedSequence p = zeroArray"
    and "kineticConstArray p 0 = Fin a" "0 < a" "timePeriod p = Fin (1 / 100)"
  shows "LookupThresholdFound (componentWindow p direction 0 (allocate p zeroHeap)) \<longleftrightarrow>
           1 / 20 < 0.69314718056 / a"
proof -
  have thr: "timeBenchmark p * symCoefArray p 0 = Fin (1 / 20)"
     "timeBenchmark p * (Fin 1 - symCoefArray p 0) = Fin (1 / 20)"
    using assms by (simp_all add: timeBenchmark_def double_ops)
  have ex: "(\<exists>k<2::nat. P) \<longleftrightarrow> P" "(\<exists>k>0::nat. k \<le> 2 \<and> (k < 2 \<longrightarrow> P) \<and> (\<not> k < 2 \<longrightarrow> Q)) \<longleftrightarrow> P \<or> Q" for P Q
    by (auto intro: exI [of _ 1] exI [of _ 2])
  show ?thesis
    unfolding componentWindow_def windowDetection_found thr
      example_halflife [OF assms(1-7)]
    using assms(1,7) by (auto simp add: less_double_def intro: exI [of _ 0] exI [of _ 1])
qed

lemma slow_found:
  "LookupThresholdFound (componentWindow slowComponent direction 0 (allocate slowComponent zeroHeap))"
  by (subst example_found [where a = 1]) (simp_all add: slowComponent_def zeroArray_def)

lemma fast_not_found:
  "\<not> LookupThresholdFound (componentWindow fastComponent direction 0 (allocate fastComponent zeroHeap))"
  by (subst example_found [where a = 1000000]) (simp_all add: fastComponent_def slowComponent_def zeroArray_def)

lemma example_loadingDivider: "loadingDivider (Fin (1 / 10000000000)) = Some 2"
proof -
  have first: "fmul (Fin 20) (Fin (1 / 10000000000)) = Fin (4835703278458517 * pow2 (- 81))"
    using fmul_eval [of "- 29" 20 "1 / 10000000000" 4835703278458517]
    by (simp add: pow2_def)
  have second: "fmul (Fin (4835703278458517 * pow2 (- 81))) (Fin 1000000000) = Fin 2"
    using fmul_eval [of 1 "4835703278458517 * pow2 (- 81)" 1000000000 4503599627370496]
    by (simp add: pow2_def)
  show ?thesis
    by (simp add: loadingDivider_def first second truncToZero_def INT_MAX_def INT_MIN_def)
qed

lemma example_conversions:
  "conversionsDefined slowComponent 0" "conversionsDefined fastComponent 0"
  "conversionsDefined zeroResistance 0"
  by (simp_all add: conversionsDefined_def slowComponent_def fastComponent_def zeroResistance_def
      example_loadingDivider truncToZero_def INT_MAX_def INT_MIN_def)

lemma allocate_cong:
  assumes "lenOfPulseSequence p = lenOfPulseSequence q"
    and "DLCcorrectedSequence p = DLCcorrectedSequence q"
  shows "allocate p heap = allocate q heap"
proof -
  have "copyStep p = copyStep q"
    using assms(2) by (intro ext) (simp add: copyStep_def)
  then show ?thesis using assms(1) by (simp add: allocate_def)
qed

lemma single_component_not_found:
  assumes "sizeOfInputArray p = 1" "conversionsDefined p 0"
    and "\<not> LookupThresholdFound
             (componentWindow p (positiveScanDirection p) 0 (allocate p heap))"
  shows "processComponents p heap = Some (computeSumRatio p (rateState p 0 (allocate p heap)))"
proof -
  obtain st' where st': "processComponent p (positiveScanDirection p) 0 (allocate p heap) = Some st'"
    using assms(2) processComponent_defined by blast
  then have "st' = computeSumRatio p (rateState p 0 (allocate p heap))"
    using assms(3) by (intro processComponent_not_found)
  with st' show ?thesis using assms(1)
    by (simp add: processComponents_def componentStep_Some)
qed

lemma fast_run:
  "processComponents fastComponent zeroHeap =
     Some (computeSumRatio fastComponent (rateState fastComponent 0 (allocate fastComponent zeroHeap)))"
  by (rule single_component_not_found)
     (simp_all add: example_conversions fast_not_found, simp add: fastComponent_def slowComponent_def)

lemma zeroResistance_not_found:
  "\<not> LookupThresholdFound
       (componentWindow zeroResistance direction 0 (allocate zeroResistance zeroHeap))"
  by (subst example_found [where a = 1000000])
     (simp_all add: zeroResistance_def fastComponent_def slowComponent_def zeroArray_def)

lemma zeroResistance_run:
  "processComponents zeroResistance zeroHeap =
     Some (computeSumRatio zeroResistance
             (rateState zeroResistance 0 (allocate zeroResistance zeroHeap)))"
  by (rule single_component_not_found)
     (simp_all add: example_conversions zeroResistance_not_found,
      simp add: zeroResistance_def fastComponent_def slowComponent_def)

lemma slow_window:
  "lookupMinTreshhold (componentWindow slowComponent False 0 (allocate slowComponent zeroHeap)) = 0"
  "lookupMaxTreshold (componentWindow slowComponent False 0 (allocate slowComponent zeroHeap)) = 1"
proof -
  let ?s = "rateState slowComponent 0 (allocate slowComponent zeroHeap)"
  have hl: "forwardKhalflife ?s j = (if j < 2 then Fin 0.69314718056 else Fin 0)"
    "backwardKhalflife ?s j = (if j < 2 then Fin 0.69314718056 else Fin 0)" for j
    using example_halflife [of slowComponent 1 j]
    by (simp_all add: slowComponent_def zeroArray_def)
  have thr: "timeBenchmark slowComponent * symCoefArray slowComponent 0 = Fin (1 / 20)"
     "timeBenchmark slowComponent * (Fin 1 - symCoefArray slowComponent 0) = Fin (1 / 20)"
    by (simp_all add: timeBenchmark_def slowComponent_def double_ops)
  have len: "lenOfPulseSequence slowComponent = 2"
    by (simp add: slowComponent_def)
  have fwd: "forwardScan (forwardKhalflife ?s) (Fin (1 / 20)) 2 0 = (Some 0, [0])"
    by (rule forwardScan_hit) (simp_all add: hl less_double_def)
  have rev: "fst (reverseScan (backwardKhalflife ?s) (Fin (1 / 20)) 2) = Some 1"
    by (simp add: numeral_2_eq_2 hl less_double_def)
  show "lookupMinTreshhold
          (componentWindow slowComponent False 0 (allocate slowComponent zeroHeap)) = 0"
    by (simp add: componentWindow_def windowDetection_def windowScan_def Let_def thr len fwd
        min_setMax_setMin)
  show "lookupMaxTreshold
          (componentWindow slowComponent False 0 (allocate slowComponent zeroHeap)) = 1"
    by (simp add: componentWindow_def windowDetection_def windowScan_def Let_def thr len rev
        max_setMax_setMin)
qed

section \<open>The claims\<close>

subsection \<open>C1: the returned current trace\<close>

text \<open>
  C1. When \<open>redoxKineticsFull\<close> returns, the returned trace has \<open>lenOfPulseSequence\<close>
  elements, and element \<open>j\<close> is \<open>(inputPulseSequence[j] - averagedPulseSequence[j]) / resistance\<close>,
  where \<open>averagedPulseSequence\<close> is the buffer as the loop over the components left it; that
  buffer starts as a copy of \<open>DLCcorrectedSequence\<close>. The division is that of \<^verbatim>\<open>double\<close>.
\<close>

theorem current_trace_ohms_law:
  assumes "processComponents p heap = Some st"
  shows "\<exists>tr. currentTrace p heap = Some tr \<and> length tr = lenOfPulseSequence p \<and>
           (\<forall>j<lenOfPulseSequence p.
              tr ! j = (inputPulseSequence p j - averagedPulseSequence st j) / resistance p \<and>
              averagedPulseSequence (allocate p heap) j = DLCcorrectedSequence p j)"
  using assms
  by (simp add: currentTrace_def redoxKineticsFull_def ohmsLaw_averaged allocate_averaged)

text \<open>
  The run of \<open>fastComponent\<close>: its one component has no window, the working potential
  stays at 0 V, and both elements of the trace are (1 - 0) / 100.
\<close>

theorem current_trace_ohms_law_witness:
  "currentTrace fastComponent zeroHeap = Some [Fin (1 / 100), Fin (1 / 100)]"
proof -
  let ?st = "computeSumRatio fastComponent
               (rateState fastComponent 0 (allocate fastComponent zeroHeap))"
  obtain tr where tr: "currentTrace fastComponent zeroHeap = Some tr"
    "length tr = lenOfPulseSequence fastComponent"
    "\<forall>j<lenOfPulseSequence fastComponent.
        tr ! j = (inputPulseSequence fastComponent j - averagedPulseSequence ?st j) /
                   resistance fastComponent"
    using current_trace_ohms_law [OF fast_run] by blast
  have avg: "averagedPulseSequence ?st j = Fin 0" for j
    by (simp add: computeSumRatio_frame rateState_frame allocate_averaged fastComponent_def
        slowComponent_def zeroArray_def zeroHeap_def)
  have "tr ! j = Fin (1 / 100)" if "j < 2" for j
    using tr(3) that by (simp add: avg) (simp add: fastComponent_def slowComponent_def double_ops)
  moreover have "length tr = 2"
    using tr(2) by (simp add: fastComponent_def slowComponent_def)
  ultimately have "tr = [Fin (1 / 100), Fin (1 / 100)]"
    by (intro nth_equalityI) (auto simp: less_Suc_eq numeral_2_eq_2)
  with tr(1) show ?thesis by simp
qed

subsection \<open>C2: invalid parameters\<close>

text \<open>
  C2 says that a call with an invalid parameter fails with an error before any
  computation. The function has no validation and no error path. The run of
  \<open>zeroResistance\<close>, whose resistance is 0, returns a trace, and both elements of it are
  +Inf: the quotient (1 - 0) / 0 of the last loop.
\<close>

theorem zero_resistance_returns_infinities:
  "resistance zeroResistance = Fin 0 \<and>
   currentTrace zeroResistance zeroHeap = Some [PInf, PInf]"
proof -
  let ?st = "computeSumRatio zeroResistance
               (rateState zeroResistance 0 (allocate zeroResistance zeroHeap))"
  have avg: "averagedPulseSequence ?st j = Fin 0" for j
    by (simp add: computeSumRatio_frame rateState_frame allocate_averaged zeroResistance_def
        fastComponent_def slowComponent_def zeroArray_def zeroHeap_def)
  have "averagedPulseSequence (ohmsLaw zeroResistance ?st) j = PInf" if "j < 2" for j
  proof -
    have "j < lenOfPulseSequence zeroResistance"
      using that by (simp add: zeroResistance_def fastComponent_def slowComponent_def)
    then show ?thesis
      by (simp add: ohmsLaw_averaged avg)
         (simp add: zeroResistance_def fastComponent_def slowComponent_def double_ops
            signedInf_def)
  qed
  then have "map (averagedPulseSequence (ohmsLaw zeroResistance ?st)) [0..<2] = [PInf, PInf]"
    by (intro nth_equalityI) (auto simp: less_Suc_eq numeral_2_eq_2)
  moreover have "lenOfPulseSequence zeroResistance = 2"
    by (simp add: zeroResistance_def fastComponent_def slowComponent_def)
  ultimately show ?thesis
    by (simp add: currentTrace_def redoxKineticsFull_def zeroResistance_run)
       (simp add: zeroResistance_def)
qed

text \<open>
  C2 as amended. The function does not validate its parameters, and a resistance of 0
  is not guarded: in every run that returns with resistance 0, the division of the last
  loop has been carried out at each index, and no element of the returned trace is
  finite (each is +Inf, -Inf or NaN).
\<close>

theorem zero_resistance_divides_through:
  assumes "currentTrace p heap = Some tr" and "resistance p = Fin 0"
  shows "length tr = lenOfPulseSequence p \<and>
         (\<exists>st. processComponents p heap = Some st \<and>
            (\<forall>j<lenOfPulseSequence p.
               tr ! j = (inputPulseSequence p j - averagedPulseSequence st j) / Fin 0 \<and>
               \<not> isFinite (tr ! j)))"
proof (cases "processComponents p heap")
  case None
  with assms(1) show ?thesis by (simp add: currentTrace_def redoxKineticsFull_def)
next
  case (Some st)
  with assms show ?thesis
    by (auto simp: currentTrace_def redoxKineticsFull_def ohmsLaw_averaged ddiv_zero_not_finite)
qed

theorem zero_resistance_divides_through_witness:
  "resistance zeroResistance = Fin 0 \<and>
   (\<exists>tr. currentTrace zeroResistance zeroHeap = Some tr \<and> length tr = 2 \<and>
      \<not> isFinite (tr ! 0) \<and> \<not> isFinite (tr ! 1))"
proof -
  have fields: "lenOfPulseSequence zeroResistance = 2" "resistance zeroResistance = Fin 0"
    by (simp_all add: zeroResistance_def fastComponent_def slowComponent_def)
  obtain tr where tr: "currentTrace zeroResistance zeroHeap = Some tr"
    by (simp add: currentTrace_def redoxKineticsFull_def zeroResistance_run)
  from zero_resistance_divides_through [OF tr fields(2)]
  have "length tr = 2" and "\<forall>j<2. \<not> isFinite (tr ! j)"
    by (auto simp: fields)
  then have "\<not> isFinite (tr ! 0)" "\<not> isFinite (tr ! 1)" by simp_all
  with tr fields \<open>length tr = 2\<close> show ?thesis by blast
qed

subsection \<open>C3: a component without a window\<close>

text \<open>
  C3. When neither scan of a component finds an index, the relaxation loop of that
  component changes nothing: the buffers after the component are those before its loop.
  Processing the component leaves \<open>cur\<close>, \<open>averagedPulseSequence\<close> and
  \<open>overcorrectedPulseSequence\<close> exactly as they were, in every cell.
\<close>

theorem window_not_found_frame:
  assumes "\<not> LookupThresholdFound (componentWindow p direction i st)"
    and "processComponent p direction i st = Some st'"
  shows "st' = computeSumRatio p (rateState p i st) \<and>
         cur st' = cur st \<and>
         averagedPulseSequence st' = averagedPulseSequence st \<and>
         overcorrectedPulseSequence st' = overcorrectedPulseSequence st"
  using processComponent_not_found [OF assms]
  by (simp add: computeSumRatio_frame rateState_frame)

theorem window_not_found_frame_witness:
  "\<not> LookupThresholdFound
       (componentWindow fastComponent False 0 (allocate fastComponent zeroHeap)) \<and>
   (\<exists>st'. processComponent fastComponent False 0 (allocate fastComponent zeroHeap) = Some st' \<and>
      cur st' = cur (allocate fastComponent zeroHeap) \<and>
      averagedPulseSequence st' = averagedPulseSequence (allocate fastComponent zeroHeap) \<and>
      overcorrectedPulseSequence st' =
        overcorrectedPulseSequence (allocate fastComponent zeroHeap))"
proof -
  obtain st' where
    "processComponent fastComponent False 0 (allocate fastComponent zeroHeap) = Some st'"
    using example_conversions(2) processComponent_defined by blast
  with window_not_found_frame [OF fast_not_found this] fast_not_found show ?thesis
    by blast
qed

subsection \<open>C4: the scan direction\<close>

text \<open>
  C4 says that the direction flag compares the first corrected value with the last one,
  \<open>DLCcorrectedSequence[N-1]\<close>. Line 40 compares it with \<open>DLCcorrectedSequence[N]\<close>, the cell
  behind the array. For \<open>fallingArgs\<close> the sequence falls from 1 V to 0 V, the cell behind
  it holds 2 V, and the flag is false.
\<close>

theorem scan_direction_reads_past_end:
  "positiveScanDirection p =
     (DLCcorrectedSequence p 0 > DLCcorrectedSequence p (lenOfPulseSequence p)) \<and>
   lenOfPulseSequence fallingArgs = 2 \<and>
   DLCcorrectedSequence fallingArgs 0 > DLCcorrectedSequence fallingArgs (2 - 1) \<and>
   \<not> positiveScanDirection fallingArgs"
  by (simp add: positiveScanDirection_def fallingArgs_def fallingSequence_def slowComponent_def
      less_double_def)

subsection \<open>C5: the reverse scan\<close>

text \<open>
  C5. For a sequence of at least one sample, in both branches of the \<^verbatim>\<open>switch\<close> the first
  index the reverse scan reads is \<open>lenOfPulseSequence\<close>, one behind the last element, and
  every index the forward scan reads is below \<open>lenOfPulseSequence\<close>. The cell read is
  \<open>backwardKhalflife[N]\<close> in the branch \<^verbatim>\<open>false\<close> and \<open>forwardKhalflife[N]\<close> in the branch \<^verbatim>\<open>true\<close>;
  lines 54 to 67 do not write it, and when its content exceeds the threshold it becomes
  the upper end of the window.
\<close>

theorem reverse_scan_reads_past_end:
  assumes "0 < lenOfPulseSequence p"
  shows "(case windowScan p direction i (rateState p i st) of
            (w, forwardReads, reverseReads) \<Rightarrow>
              reverseReads \<noteq> [] \<and> hd reverseReads = lenOfPulseSequence p \<and>
              (\<forall>j\<in>set forwardReads. j < lenOfPulseSequence p)) \<and>
         backwardKhalflife (rateState p i st) (lenOfPulseSequence p) =
           backwardKhalflife st (lenOfPulseSequence p) \<and>
         forwardKhalflife (rateState p i st) (lenOfPulseSequence p) =
           forwardKhalflife st (lenOfPulseSequence p) \<and>
         (backwardKhalflife st (lenOfPulseSequence p) > timeBenchmark p * symCoefArray p i \<longrightarrow>
            LookupThresholdFound (componentWindow p False i st) \<and>
            lookupMaxTreshold (componentWindow p False i st) = lenOfPulseSequence p) \<and>
         (forwardKhalflife st (lenOfPulseSequence p) >
            timeBenchmark p * (Fin 1 - symCoefArray p i) \<longrightarrow>
            LookupThresholdFound (componentWindow p True i st) \<and>
            lookupMaxTreshold (componentWindow p True i st) = lenOfPulseSequence p)"
proof -
  have reads: "(case windowScan p direction i (rateState p i st) of
            (w, forwardReads, reverseReads) \<Rightarrow>
              reverseReads \<noteq> [] \<and> hd reverseReads = lenOfPulseSequence p \<and>
              (\<forall>j\<in>set forwardReads. j < lenOfPulseSequence p))"
    using assms
    by (auto simp: windowScan_def Let_def reverseScan_first_read reverseScan_reads_nonempty
        dest: forwardScan_reads)
  have cells: "backwardKhalflife (rateState p i st) (lenOfPulseSequence p) =
           backwardKhalflife st (lenOfPulseSequence p)"
    "forwardKhalflife (rateState p i st) (lenOfPulseSequence p) =
           forwardKhalflife st (lenOfPulseSequence p)"
    by (simp_all add: rateState_halflife_beyond)
  have no: "LookupThresholdFound (componentWindow p False i st) \<and>
            lookupMaxTreshold (componentWindow p False i st) = lenOfPulseSequence p"
    if "backwardKhalflife st (lenOfPulseSequence p) > timeBenchmark p * symCoefArray p i"
    using that assms
    by (simp add: componentWindow_def windowDetection_def windowScan_def Let_def
        found_setMax_setMin max_setMax_setMin reverseScan_at_end cells)
  have yes: "LookupThresholdFound (componentWindow p True i st) \<and>
            lookupMaxTreshold (componentWindow p True i st) = lenOfPulseSequence p"
    if "forwardKhalflife st (lenOfPulseSequence p) > timeBenchmark p * (Fin 1 - symCoefArray p i)"
    using that assms
    by (simp add: componentWindow_def windowDetection_def windowScan_def Let_def
        found_setMax_setMin max_setMax_setMin reverseScan_at_end cells)
  from reads cells no yes show ?thesis by blast
qed

text \<open>
  The component of \<open>fastComponent\<close> has every half-life of its two samples below the
  threshold. On \<open>staleHeap\<close> the cell behind each half-life array holds 1, above the
  threshold 1/20: the reverse scan reads it first, at index 2, and in both branches the
  component gets a window that ends at 2.
\<close>

theorem reverse_scan_reads_past_end_witness:
  "0 < lenOfPulseSequence fastComponent \<and>
   hd (snd (snd (windowScan fastComponent False 0
                   (rateState fastComponent 0 (allocate fastComponent staleHeap))))) = 2 \<and>
   hd (snd (snd (windowScan fastComponent True 0
                   (rateState fastComponent 0 (allocate fastComponent staleHeap))))) = 2 \<and>
   backwardKhalflife (allocate fastComponent staleHeap) 2 >
     timeBenchmark fastComponent * symCoefArray fastComponent 0 \<and>
   forwardKhalflife (allocate fastComponent staleHeap) 2 >
     timeBenchmark fastComponent * (Fin 1 - symCoefArray fastComponent 0) \<and>
   LookupThresholdFound
     (componentWindow fastComponent False 0 (allocate fastComponent staleHeap)) \<and>
   lookupMaxTreshold
     (componentWindow fastComponent False 0 (allocate fastComponent staleHeap)) = 2 \<and>
   LookupThresholdFound
     (componentWindow fastComponent True 0 (allocate fastComponent staleHeap)) \<and>
   lookupMaxTreshold
     (componentWindow fastComponent True 0 (allocate fastComponent staleHeap)) = 2"
proof -
  have len: "lenOfPulseSequence fastComponent = 2"
    by (simp add: fastComponent_def slowComponent_def)
  then have pos: "0 < lenOfPulseSequence fastComponent" by simp
  have thr: "timeBenchmark fastComponent * symCoefArray fastComponent 0 = Fin (1 / 20)"
    "timeBenchmark fastComponent * (Fin 1 - symCoefArray fastComponent 0) = Fin (1 / 20)"
    by (simp_all add: timeBenchmark_def fastComponent_def slowComponent_def double_ops)
  have cell: "backwardKhalflife (allocate fastComponent staleHeap) 2 = Fin 1"
    "forwardKhalflife (allocate fastComponent staleHeap) 2 = Fin 1"
    by (simp_all add: allocate_halflife staleHeap_def)
  have above: "backwardKhalflife (allocate fastComponent staleHeap) (lenOfPulseSequence fastComponent) >
     timeBenchmark fastComponent * symCoefArray fastComponent 0"
    "forwardKhalflife (allocate fastComponent staleHeap) (lenOfPulseSequence fastComponent) >
     timeBenchmark fastComponent * (Fin 1 - symCoefArray fastComponent 0)"
    by (simp_all add: len thr cell less_double_def)
  note f = reverse_scan_reads_past_end [OF pos, of False 0 "allocate fastComponent staleHeap"]
  note t = reverse_scan_reads_past_end [OF pos, of True 0 "allocate fastComponent staleHeap"]
  have "hd (snd (snd (windowScan fastComponent False 0
                   (rateState fastComponent 0 (allocate fastComponent staleHeap))))) = 2"
    using f by (auto simp: len split: prod.splits)
  moreover have "hd (snd (snd (windowScan fastComponent True 0
                   (rateState fastComponent 0 (allocate fastComponent staleHeap))))) = 2"
    using t by (auto simp: len split: prod.splits)
  moreover have "LookupThresholdFound
     (componentWindow fastComponent False 0 (allocate fastComponent staleHeap)) \<and>
   lookupMaxTreshold
     (componentWindow fastComponent False 0 (allocate fastComponent staleHeap)) = 2"
    using f above(1) by (simp add: len)
  moreover have "LookupThresholdFound
     (componentWindow fastComponent True 0 (allocate fastComponent staleHeap)) \<and>
   lookupMaxTreshold
     (componentWindow fastComponent True 0 (allocate fastComponent staleHeap)) = 2"
    using t above(2) by (simp add: len)
  ultimately show ?thesis using pos above by (simp add: len)
qed

subsection \<open>C6: the number of slices\<close>

text \<open>
  C6 says that for every positive loading the slice count is the ceiling of
  \<open>20 * loading * 1e9\<close> rounded up to an even number. The count is an \<^verbatim>\<open>int\<close>: for the
  loading 1 both products of line 133 are exact, the ceiling is 2e10, which no \<^verbatim>\<open>int\<close>
  holds, and the conversion has no defined result.
\<close>

theorem loading_one_overflows_int:
  "Fin 0 < Fin 1 \<and> isBinary64 1 \<and>
   dceil (fmul (fmul (Fin 20) (Fin 1)) (Fin 1000000000)) = Fin 20000000000 \<and>
   20000000000 > INT_MAX \<and> loadingDivider (Fin 1) = None"
proof -
  have one: "isBinary64 1"
    using round64_eval [of 0 1 4503599627370496]
    by (simp add: isBinary64_def pow2_def)
  have first: "fmul (Fin 20) (Fin 1) = Fin 20"
    using fmul_eval [of 4 20 1 5629499534213120] by (simp add: pow2_def)
  have second: "fmul (Fin 20) (Fin 1000000000) = Fin 20000000000"
    using fmul_eval [of 34 20 1000000000 5242880000000000] by (simp add: pow2_def)
  show ?thesis
    by (simp add: loadingDivider_def one first second less_double_def truncToZero_def
        INT_MAX_def INT_MIN_def)
qed

text \<open>
  C6 as amended. For every positive binary64 loading for which the ceiling of the
  product \<open>20 * loading * 1e9\<close>, computed as line 133 computes it, with each of the two
  multiplications rounded to binary64, is below the largest \<^verbatim>\<open>int\<close>, the slice count
  is that ceiling rounded up to the nearest even integer, it is positive, and each
  slice has size \<open>2 * loading / count\<close>. For the loading 1e-9 the count is 20; there the
  rounded product is 20, while the exact product of the same binary64 value has the
  ceiling 21.
\<close>

theorem loading_discretisation:
  assumes "0 < L" and "isBinary64 L"
    and "\<lceil>round64 (round64 (20 * L) * 1000000000)\<rceil> < INT_MAX"
  shows "(\<exists>D. loadingDivider (Fin L) = Some D \<and> even D \<and> 0 < D \<and>
            \<lceil>round64 (round64 (20 * L) * 1000000000)\<rceil> \<le> D \<and>
            D < \<lceil>round64 (round64 (20 * L) * 1000000000)\<rceil> + 2 \<and>
            truncatedComponent (Fin L) D = Fin (2 * L / of_int D)) \<and>
         loadingDivider (Fin double_1e_9) = Some 20 \<and>
         round64 (round64 (20 * double_1e_9) * 1000000000) = 20 \<and>
         \<lceil>20 * double_1e_9 * 1000000000\<rceil> = 21"
proof -
  define y1 where "y1 = round64 (20 * L)"
  define y2 where "y2 = round64 (y1 * 1000000000)"
  define c where "c = \<lceil>y2\<rceil>"
  have small: "c < INT_MAX" using assms(3) by (simp add: c_def y2_def y1_def)
  have tiny: "pow2 (- 1074) \<le> L"
    using assms(1,2) by (intro representable_ge_min) (simp_all add: isBinary64_def)
  have tiny_pos: "0 < pow2 (- 1074)" by (rule pow2_pos)
  have "pow2 (- 1074) \<le> 20 * L" using tiny tiny_pos by linarith
  then have y1_min: "pow2 (- 1074) \<le> y1" unfolding y1_def by (rule round64_ge_min)
  then have "pow2 (- 1074) \<le> y1 * 1000000000" using tiny_pos by linarith
  then have y2_min: "pow2 (- 1074) \<le> y2" unfolding y2_def by (rule round64_ge_min)
  then have y2_pos: "0 < y2" using tiny_pos by linarith
  then have pos: "0 < c" by (simp add: c_def)
  have "y2 \<le> of_int c" by (simp add: c_def)
  also have "\<dots> < 2147483647" using small by (simp add: INT_MAX_def)
  finally have y2_small: "y2 < 2147483647" .
  have big: "(2147483647::real) < pow2 1024" by (simp add: pow2_def)
  have y1_small: "y1 < pow2 1024"
  proof (rule ccontr)
    assume "\<not> y1 < pow2 1024"
    then have large: "pow2 1024 \<le> y1" by simp
    then have "1 \<le> y1 * 1000000000" using big by linarith
    then have "y1 * 1000000000 / 2 < y2" unfolding y2_def by (rule round64_gt_half)
    with large big y2_small show False by linarith
  qed
  have "fmul (Fin 20) (Fin L) = Fin y1"
    unfolding y1_def using y1_small y1_min tiny_pos
    by (intro fmul_finite) (simp add: y1_def)
  moreover have "fmul (Fin y1) (Fin 1000000000) = Fin y2"
    unfolding y2_def using y2_small y2_pos big
    by (intro fmul_finite) (simp add: y2_def)
  ultimately have "dceil (fmul (fmul (Fin 20) (Fin L)) (Fin 1000000000)) = Fin (of_int c)"
    by (simp add: c_def)
  then have conv: "toInt (dceil (fmul (fmul (Fin 20) (Fin L)) (Fin 1000000000))) = Some c"
    using pos small by (simp add: truncToZero_def INT_MIN_def)
  have size: "truncatedComponent (Fin L) D = Fin (2 * L / of_int D)" if "0 < D" for D
    using that by (simp add: truncatedComponent_def ofInt_def double_ops)
  have main: "\<exists>D. loadingDivider (Fin L) = Some D \<and> even D \<and> 0 < D \<and> c \<le> D \<and> D < c + 2 \<and>
                truncatedComponent (Fin L) D = Fin (2 * L / of_int D)"
  proof (cases "even c")
    case True
    then have "loadingDivider (Fin L) = Some c"
      unfolding loadingDivider_def conv by (simp add: even_iff_mod_2_eq_zero)
    with True pos size [OF pos] show ?thesis by simp
  next
    case False
    then have "loadingDivider (Fin L) = Some (c + 1)"
      unfolding loadingDivider_def conv using small by (simp add: even_iff_mod_2_eq_zero)
    moreover have "0 < c + 1" using pos by simp
    ultimately show ?thesis using False size [of "c + 1"] by simp
  qed
  have first: "round64 (20 * double_1e_9) = 6044629098073146 * pow2 (- 78)"
    using round64_eval [of "- 26" "20 * double_1e_9" 6044629098073146]
    by (simp add: double_1e_9_def pow2_def)
  have second: "round64 (6044629098073146 * pow2 (- 78) * 1000000000) = 20"
    using round64_eval [of 4 "6044629098073146 * pow2 (- 78) * 1000000000" 5629499534213120]
    by (simp add: pow2_def)
  have rounded: "round64 (round64 (20 * double_1e_9) * 1000000000) = 20"
    by (simp only: first second)
  have product: "fmul (fmul (Fin 20) (Fin double_1e_9)) (Fin 1000000000) = Fin 20"
  proof -
    have "fmul (Fin 20) (Fin double_1e_9) = Fin (6044629098073146 * pow2 (- 78))"
      by (rule fmul_finite [of 20 double_1e_9, unfolded first]) (simp add: pow2_def)
    moreover have "fmul (Fin (6044629098073146 * pow2 (- 78))) (Fin 1000000000) = Fin 20"
      by (rule fmul_finite [of "6044629098073146 * pow2 (- 78)" 1000000000, unfolded second])
         (simp add: pow2_def)
    ultimately show ?thesis by simp
  qed
  have particular: "loadingDivider (Fin double_1e_9) = Some 20"
    by (simp add: loadingDivider_def product truncToZero_def INT_MAX_def INT_MIN_def)
  have exact: "\<lceil>20 * double_1e_9 * 1000000000\<rceil> = 21"
    by (simp add: double_1e_9_def ceiling_eq_iff)
  from main particular rounded exact show ?thesis
    unfolding c_def y2_def y1_def by blast
qed

text \<open>
  The binary64 value nearest to 2.1e-9: the first product rounds to
  \<open>6346860552976804 * 2^-77\<close>, the second to \<open>5910974510923777 * 2^-47\<close>, a little above 42; the
  ceiling is 43 and the count 44.
\<close>

theorem loading_discretisation_witness:
  "0 < double_2_1e_9 \<and> isBinary64 double_2_1e_9 \<and>
   \<lceil>round64 (round64 (20 * double_2_1e_9) * 1000000000)\<rceil> = 43 \<and> 43 < INT_MAX \<and>
   loadingDivider (Fin double_2_1e_9) = Some 44 \<and>
   truncatedComponent (Fin double_2_1e_9) 44 = Fin (2 * double_2_1e_9 / 44)"
proof -
  have a: "0 < double_2_1e_9" by (simp add: double_2_1e_9_def)
  have b: "isBinary64 double_2_1e_9"
    using round64_eval [of "- 29" double_2_1e_9 5077488442381443]
    by (simp add: isBinary64_def double_2_1e_9_def pow2_def)
  have first: "round64 (20 * double_2_1e_9) = 6346860552976804 * pow2 (- 77)"
    using round64_eval [of "- 25" "20 * double_2_1e_9" 6346860552976804]
    by (simp add: double_2_1e_9_def pow2_def)
  have second: "round64 (6346860552976804 * pow2 (- 77) * 1000000000) =
                5910974510923777 * pow2 (- 47)"
    using round64_eval [of 5 "6346860552976804 * pow2 (- 77) * 1000000000" 5910974510923777]
    by (simp add: pow2_def)
  have "\<lceil>5910974510923777 * pow2 (- 47)\<rceil> = 43"
    by (simp add: pow2_def ceiling_eq_iff)
  then have c: "\<lceil>round64 (round64 (20 * double_2_1e_9) * 1000000000)\<rceil> = 43"
    by (simp only: first second)
  have small: "\<lceil>round64 (round64 (20 * double_2_1e_9) * 1000000000)\<rceil> < INT_MAX"
    unfolding c by (simp add: INT_MAX_def)
  obtain D where D: "loadingDivider (Fin double_2_1e_9) = Some D" "even D"
    "\<lceil>round64 (round64 (20 * double_2_1e_9) * 1000000000)\<rceil> \<le> D"
    "D < \<lceil>round64 (round64 (20 * double_2_1e_9) * 1000000000)\<rceil> + 2"
    "truncatedComponent (Fin double_2_1e_9) D = Fin (2 * double_2_1e_9 / of_int D)"
    using loading_discretisation [OF a b small] by blast
  have "D = 43 \<or> D = 44" using D(3,4) unfolding c by linarith
  with D(2) have "D = 44" by auto
  with D(1,5) a b c show ?thesis by (simp add: INT_MAX_def)
qed

subsection \<open>C7: rate constants and half-lives\<close>

text \<open>
  C7. After lines 54 to 67 have run for component \<open>i\<close>, at every index \<open>j\<close> below
  \<open>lenOfPulseSequence\<close> the overpotential is \<open>averagedPulseSequence[j] - redoxPotArray[i]\<close>, the
  forward rate constant is \<open>k0 * exp(overpotential * z * (F/(R*T)) * alpha)\<close>, the backward one
  \<open>k0 * exp(- overpotential * z * (F/(R*T)) * (1 - alpha))\<close>, and the half-lives are
  \<open>ln2\<close> divided by them; the constants are R = 8.3145, T = 295.0, F = 96485.0, the
  quotient F/(R*T), and ln2 = 0.69314718056.
\<close>

theorem rate_constants_and_halflives:
  assumes "j < lenOfPulseSequence p"
  shows "overpotentials (rateState p i st) j = averagedPulseSequence st j - redoxPotArray p i \<and>
         forwardK (rateState p i st) j =
           kineticConstArray p i *
             dexp (overpotentials (rateState p i st) j * zArray p i * FbyRT * symCoefArray p i) \<and>
         backwardK (rateState p i st) j =
           kineticConstArray p i *
             dexp ((- overpotentials (rateState p i st) j) * zArray p i * FbyRT *
                   (Fin 1 - symCoefArray p i)) \<and>
         forwardKhalflife (rateState p i st) j = ln2 / forwardK (rateState p i st) j \<and>
         backwardKhalflife (rateState p i st) j = ln2 / backwardK (rateState p i st) j \<and>
         const_r = Fin 8.3145 \<and> const_t = Fin 295.0 \<and> const_f = Fin 96485.0 \<and>
         FbyRT = const_f / (const_r * const_t) \<and> ln2 = Fin 0.69314718056"
proof -
  have swap: "a * FbyRT * zArray p i = a * zArray p i * FbyRT" for a
    by (rule times_double_swap)
  have rates: "overpotentials (rateState p i st) j = averagedPulseSequence st j - redoxPotArray p i \<and>
         forwardK (rateState p i st) j =
           kineticConstArray p i *
             dexp (overpotentials (rateState p i st) j * zArray p i * FbyRT * symCoefArray p i) \<and>
         backwardK (rateState p i st) j =
           kineticConstArray p i *
             dexp ((- overpotentials (rateState p i st) j) * zArray p i * FbyRT *
                   (Fin 1 - symCoefArray p i)) \<and>
         forwardKhalflife (rateState p i st) j = ln2 / forwardK (rateState p i st) j \<and>
         backwardKhalflife (rateState p i st) j = ln2 / backwardK (rateState p i st) j"
    using rateState_rates [OF assms, of i st] rateState_overpotentials [OF assms, of i st]
    by (simp only: swap simp_thms)
  have constants: "const_r = Fin 8.3145 \<and> const_t = Fin 295.0 \<and> const_f = Fin 96485.0 \<and>
         FbyRT = const_f / (const_r * const_t) \<and> ln2 = Fin 0.69314718056"
    by (simp add: const_r_def const_t_def const_f_def FbyRT_def const_rt_def ln2_def)
  from rates constants show ?thesis by (simp only: simp_thms)
qed

text \<open>
  The first sample of \<open>slowComponent\<close>: the overpotential is 0, both rate constants are
  \<open>k0 = 1\<close> and both half-lives are \<open>ln2\<close>.
\<close>

theorem rate_constants_and_halflives_witness:
  "0 < lenOfPulseSequence slowComponent \<and>
   overpotentials (rateState slowComponent 0 (allocate slowComponent zeroHeap)) 0 = Fin 0 \<and>
   forwardK (rateState slowComponent 0 (allocate slowComponent zeroHeap)) 0 = Fin 1 \<and>
   backwardK (rateState slowComponent 0 (allocate slowComponent zeroHeap)) 0 = Fin 1 \<and>
   forwardKhalflife (rateState slowComponent 0 (allocate slowComponent zeroHeap)) 0 =
     Fin 0.69314718056 \<and>
   backwardKhalflife (rateState slowComponent 0 (allocate slowComponent zeroHeap)) 0 =
     Fin 0.69314718056"
proof -
  let ?s = "rateState slowComponent 0 (allocate slowComponent zeroHeap)"
  have len: "0 < lenOfPulseSequence slowComponent"
    by (simp add: slowComponent_def)
  note inst = rate_constants_and_halflives [OF len, of 0 "allocate slowComponent zeroHeap"]
  have fields: "kineticConstArray slowComponent 0 = Fin 1" "zArray slowComponent 0 = Fin 1"
    "symCoefArray slowComponent 0 = Fin (1 / 2)" "redoxPotArray slowComponent 0 = Fin 0"
    "DLCcorrectedSequence slowComponent 0 = Fin 0"
    by (simp_all add: slowComponent_def zeroArray_def)
  have c: "FbyRT = Fin (96485 / (8.3145 * 295))"
    by (simp add: FbyRT_def const_f_def const_rt_def const_r_def const_t_def double_ops)
  have "overpotentials ?s 0 = Fin 0 - Fin 0"
    using inst len by (simp add: allocate_averaged fields)
  then have eta: "overpotentials ?s 0 = Fin 0"
    by (simp add: double_ops)
  have "forwardK ?s 0 = Fin 1 * dexp (Fin 0 * Fin 1 * FbyRT * Fin (1 / 2))"
    using inst by (simp add: eta fields)
  then have fk: "forwardK ?s 0 = Fin 1"
    by (simp add: c double_ops)
  have "backwardK ?s 0 = Fin 1 * dexp ((- Fin 0) * Fin 1 * FbyRT * (Fin 1 - Fin (1 / 2)))"
    using inst by (simp add: eta fields)
  then have bk: "backwardK ?s 0 = Fin 1"
    by (simp add: c double_ops)
  have "forwardKhalflife ?s 0 = ln2 / Fin 1" "backwardKhalflife ?s 0 = ln2 / Fin 1"
    using inst by (simp_all add: fk bk)
  then have "forwardKhalflife ?s 0 = Fin 0.69314718056"
    "backwardKhalflife ?s 0 = Fin 0.69314718056"
    by (simp_all add: ln2_def double_ops)
  with len eta fk bk show ?thesis by simp
qed

subsection \<open>C8: the window and the rate constant\<close>

text \<open>
  C8 says that a window found at a rate constant is found at every larger one. The run
  of \<open>slowComponent\<close> (rate constant 1) finds a window for its component; the same run
  with the rate constant raised to 1e6, \<open>fastComponent\<close>, finds none: the half-lives
  fall with the rate constant, and the scans look for a half-life above the threshold.
\<close>

theorem larger_rate_constant_loses_window:
  "fastComponent = slowComponent\<lparr>kineticConstArray := (\<lambda>i. Fin 1000000)\<rparr> \<and>
   kineticConstArray slowComponent 0 < kineticConstArray fastComponent 0 \<and>
   allocate fastComponent zeroHeap = allocate slowComponent zeroHeap \<and>
   positiveScanDirection fastComponent = positiveScanDirection slowComponent \<and>
   LookupThresholdFound
     (componentWindow slowComponent (positiveScanDirection slowComponent) 0
        (allocate slowComponent zeroHeap)) \<and>
   \<not> LookupThresholdFound
     (componentWindow fastComponent (positiveScanDirection fastComponent) 0
        (allocate fastComponent zeroHeap))"
proof -
  have "allocate fastComponent zeroHeap = allocate slowComponent zeroHeap"
    by (rule allocate_cong) (simp_all add: fastComponent_def)
  moreover have "kineticConstArray slowComponent 0 < kineticConstArray fastComponent 0"
    by (simp add: fastComponent_def slowComponent_def less_double_def)
  moreover have "positiveScanDirection fastComponent = positiveScanDirection slowComponent"
    by (simp add: positiveScanDirection_def fastComponent_def)
  ultimately show ?thesis
    using slow_found fast_not_found by (simp add: fastComponent_def)
qed

text \<open>
  C8 as amended. Window detection is antitone in the rate constant: for a component
  with a positive rate constant, the buffers and all other arguments fixed, a window
  found at a larger rate constant is found at the smaller one; raising the rate
  constant can only keep or grow the set of inputs with no window.
\<close>

theorem window_found_antitone:
  assumes "Fin 0 < kineticConstArray p i"
    and "kineticConstArray p i < k'"
    and "LookupThresholdFound
           (componentWindow (p\<lparr>kineticConstArray := (kineticConstArray p)(i := k')\<rparr>)
              direction i st)"
  shows "LookupThresholdFound (componentWindow p direction i st)"
proof -
  let ?q = "p\<lparr>kineticConstArray := (kineticConstArray p)(i := k')\<rparr>"
  let ?N = "lenOfPulseSequence p"
  have f: "thr < forwardKhalflife (rateState ?q i st) j \<Longrightarrow>
           thr < forwardKhalflife (rateState p i st) j" for thr j
  proof (cases "j < ?N")
    case True
    assume "thr < forwardKhalflife (rateState ?q i st) j"
    with True halflife_antitone [OF assms(1,2)] show ?thesis
      by (simp add: rateState_halflife)
  next
    case False
    assume "thr < forwardKhalflife (rateState ?q i st) j"
    with False show ?thesis by (simp add: rateState_halflife_beyond)
  qed
  have b: "thr < backwardKhalflife (rateState ?q i st) j \<Longrightarrow>
           thr < backwardKhalflife (rateState p i st) j" for thr j
  proof (cases "j < ?N")
    case True
    assume "thr < backwardKhalflife (rateState ?q i st) j"
    with True halflife_antitone [OF assms(1,2)] show ?thesis
      by (simp add: rateState_halflife)
  next
    case False
    assume "thr < backwardKhalflife (rateState ?q i st) j"
    with False show ?thesis by (simp add: rateState_halflife_beyond)
  qed
  have tb: "timeBenchmark ?q = timeBenchmark p"
    by (simp add: timeBenchmark_def)
  from assms(3) show ?thesis
    unfolding componentWindow_def windowDetection_found tb
    by (auto split: if_splits dest: f b)
qed

text \<open>The component of \<open>slowComponent\<close>, with its rate constant 1 and the larger one 2.\<close>

theorem window_found_antitone_witness:
  "Fin 0 < kineticConstArray slowComponent 0 \<and>
   kineticConstArray slowComponent 0 < Fin 2 \<and>
   LookupThresholdFound
     (componentWindow
        (slowComponent\<lparr>kineticConstArray := (kineticConstArray slowComponent)(0 := Fin 2)\<rparr>)
        False 0 (allocate slowComponent zeroHeap)) \<and>
   LookupThresholdFound (componentWindow slowComponent False 0 (allocate slowComponent zeroHeap))"
proof -
  let ?q = "slowComponent\<lparr>kineticConstArray := (kineticConstArray slowComponent)(0 := Fin 2)\<rparr>"
  have pos: "Fin 0 < kineticConstArray slowComponent 0"
    and less: "kineticConstArray slowComponent 0 < Fin 2"
    by (simp_all add: slowComponent_def less_double_def)
  have same: "allocate ?q zeroHeap = allocate slowComponent zeroHeap"
    by (rule allocate_cong) simp_all
  have "LookupThresholdFound (componentWindow ?q False 0 (allocate ?q zeroHeap))"
    by (subst example_found [where a = 2]) (simp_all add: slowComponent_def zeroArray_def)
  then have found: "LookupThresholdFound
                      (componentWindow ?q False 0 (allocate slowComponent zeroHeap))"
    by (simp only: same)
  from window_found_antitone [OF pos less found] pos less found show ?thesis
    by simp
qed

subsection \<open>C9: the capacitive correction\<close>

text \<open>
  C9. For a sequence of at least one sample, both correction functions return a sequence
  whose first element is the first raw value and whose element \<open>i\<close>, from 1 on, is
  \<open>corrected[i-1] + (raw[i] - corrected[i-1]) * (1 - exp(-dt/(R*C)))\<close>; in the pulse variant
  \<open>dt\<close> is \<open>pulse_time/npp\<close>. Both current functions return \<open>(raw[i] - corrected[i]) / R\<close> at
  every index.
\<close>

theorem capacitive_correction_recurrence:
  assumes "1 \<le> N"
  shows "dlcCorrectedCVsequence R C dt N raw fresh 0 = raw 0 \<and>
         (\<forall>i. 1 \<le> i \<and> i < N \<longrightarrow>
            dlcCorrectedCVsequence R C dt N raw fresh i =
              dlcCorrectedCVsequence R C dt N raw fresh (i - 1) +
                (raw i - dlcCorrectedCVsequence R C dt N raw fresh (i - 1)) *
                  (Fin 1 - dexp (- (dt / (R * C))))) \<and>
         (\<forall>i. i < N \<longrightarrow> dlcCurrentCV R N raw corrected fresh i = (raw i - corrected i) / R) \<and>
         swvDLCCorrectedInputArray pulse R C raw N npp fresh 0 = raw 0 \<and>
         (\<forall>i. 1 \<le> i \<and> i < N \<longrightarrow>
            swvDLCCorrectedInputArray pulse R C raw N npp fresh i =
              swvDLCCorrectedInputArray pulse R C raw N npp fresh (i - 1) +
                (raw i - swvDLCCorrectedInputArray pulse R C raw N npp fresh (i - 1)) *
                  (Fin 1 - dexp (- ((pulse / ofInt npp) / (R * C))))) \<and>
         (\<forall>i. i < N \<longrightarrow> swvDLCcurrent R N raw corrected fresh i = (raw i - corrected i) / R)"
  using assms
  by (simp add: dlcCorrectedCVsequence_def swvDLCCorrectedInputArray_def dlcCurrentCV_def
      swvDLCcurrent_def cv_fold_zero cv_fold_rec swv_fold_zero swv_fold_rec current_fold_at
      neg_divide_double)

text \<open>
  Two samples of the ramp, 0 V and 1 V, with R = C = dt = 1 (sweep) and
  pulse_time = npp = 1 (pulse): the second corrected value is \<open>1 - exp (-1)\<close> in both
  variants, and the capacitive current against the uncorrected zero array is the ramp.
\<close>

theorem capacitive_correction_recurrence_witness:
  "(1::nat) \<le> 2 \<and>
   dlcCorrectedCVsequence (Fin 1) (Fin 1) (Fin 1) 2 rampSignal zeroArray 0 = Fin 0 \<and>
   dlcCorrectedCVsequence (Fin 1) (Fin 1) (Fin 1) 2 rampSignal zeroArray 1 = Fin (1 - exp (- 1)) \<and>
   swvDLCCorrectedInputArray (Fin 1) (Fin 1) (Fin 1) rampSignal 2 1 zeroArray 0 = Fin 0 \<and>
   swvDLCCorrectedInputArray (Fin 1) (Fin 1) (Fin 1) rampSignal 2 1 zeroArray 1 =
     Fin (1 - exp (- 1)) \<and>
   dlcCurrentCV (Fin 1) 2 rampSignal zeroArray zeroArray 1 = Fin 1 \<and>
   swvDLCcurrent (Fin 1) 2 rampSignal zeroArray zeroArray 1 = Fin 1"
proof -
  have le: "(1::nat) \<le> 2" by simp
  note inst = capacitive_correction_recurrence [OF le, of "Fin 1" "Fin 1" "Fin 1" rampSignal
      zeroArray zeroArray "Fin 1" 1]
  have cv0: "dlcCorrectedCVsequence (Fin 1) (Fin 1) (Fin 1) 2 rampSignal zeroArray 0 = Fin 0"
    using inst by (simp add: rampSignal_def)
  have sw0: "swvDLCCorrectedInputArray (Fin 1) (Fin 1) (Fin 1) rampSignal 2 1 zeroArray 0 = Fin 0"
    using inst by (simp add: rampSignal_def)
  have "dlcCorrectedCVsequence (Fin 1) (Fin 1) (Fin 1) 2 rampSignal zeroArray 1 =
          dlcCorrectedCVsequence (Fin 1) (Fin 1) (Fin 1) 2 rampSignal zeroArray 0 +
            (rampSignal 1 - dlcCorrectedCVsequence (Fin 1) (Fin 1) (Fin 1) 2 rampSignal zeroArray 0) *
              (Fin 1 - dexp (- (Fin 1 / (Fin 1 * Fin 1))))"
    using inst by simp
  then have cv1: "dlcCorrectedCVsequence (Fin 1) (Fin 1) (Fin 1) 2 rampSignal zeroArray 1 =
                  Fin (1 - exp (- 1))"
    by (simp add: cv0) (simp add: rampSignal_def double_ops)
  have "swvDLCCorrectedInputArray (Fin 1) (Fin 1) (Fin 1) rampSignal 2 1 zeroArray 1 =
          swvDLCCorrectedInputArray (Fin 1) (Fin 1) (Fin 1) rampSignal 2 1 zeroArray 0 +
            (rampSignal 1 - swvDLCCorrectedInputArray (Fin 1) (Fin 1) (Fin 1) rampSignal 2 1 zeroArray 0) *
              (Fin 1 - dexp (- ((Fin 1 / ofInt 1) / (Fin 1 * Fin 1))))"
    using inst by simp
  then have sw1: "swvDLCCorrectedInputArray (Fin 1) (Fin 1) (Fin 1) rampSignal 2 1 zeroArray 1 =
                  Fin (1 - exp (- 1))"
    by (simp add: sw0) (simp add: rampSignal_def double_ops ofInt_def)
  have cur: "dlcCurrentCV (Fin 1) 2 rampSignal zeroArray zeroArray 1 = Fin 1"
    "swvDLCcurrent (Fin 1) 2 rampSignal zeroArray zeroArray 1 = Fin 1"
    using inst by (simp_all add: rampSignal_def zeroArray_def double_ops)
  from cv0 cv1 sw0 sw1 cur show ?thesis by simp
qed

subsection \<open>C10: the current at the lower end of the window\<close>

text \<open>
  C10. The buffer \<open>cur\<close> is set to zero once, at allocation. Nothing but the current
  march writes it: not the rate computation of a component, not the two correction
  passes; and the march of a slice writes only the indices from \<open>lookupMinTreshhold + 1\<close>
  to \<open>lookupMaxTreshold\<close>, so that outside this range a slice, and a whole component,
  leave \<open>cur\<close> as it was. Each correction pass subtracts \<open>cur[m] * resistance\<close> at the indices
  from \<open>lookupMinTreshhold\<close> to \<open>lookupMaxTreshold - 1\<close>. Hence, in a slice with a non-empty
  window, the correction at \<open>lookupMinTreshhold\<close> uses the value \<open>cur\<close> held there when the slice
  began; for the first slice of the first component that value is the initial zero.
\<close>

theorem stale_current_at_window_start:
  "(\<forall>j<lenOfPulseSequence p. cur (allocate p heap) j = Fin 0) \<and>
   cur (computeSumRatio p (rateState p i st)) = cur st \<and>
   cur (overcorrectionPass p i w st) = cur st \<and>
   cur (averagingPass p i w st) = cur st \<and>
   (\<forall>n. n \<le> lookupMinTreshhold w \<or> lookupMaxTreshold w < n \<longrightarrow>
      cur (snd (currentMarch p i c w (red, st))) n = cur st n \<and>
      (relaxationSlice p i c w j st = Some st' \<longrightarrow> cur st' n = cur st n)) \<and>
   (\<forall>n. processComponent p direction i st = Some st'' \<and>
        (n \<le> lookupMinTreshhold (componentWindow p direction i st) \<or>
         lookupMaxTreshold (componentWindow p direction i st) < n) \<longrightarrow>
      cur st'' n = cur st n) \<and>
   (\<forall>m. lookupMinTreshhold w \<le> m \<and> m < lookupMaxTreshold w \<longrightarrow>
      overcorrectedPulseSequence (overcorrectionPass p i w st) m =
        overcorrectedPulseSequence st m - cur st m * resistance p \<and>
      averagedPulseSequence (averagingPass p i w st) m =
        (overcorrectedPulseSequence st m - cur st m * resistance p +
         overcorrectedPulseSequence st m) / Fin 2) \<and>
   (LookupThresholdFound w \<and> lookupMinTreshhold w < lookupMaxTreshold w \<and>
    relaxationSlice p i c w j st = Some st' \<longrightarrow>
      (if j mod 2 = 0
       then overcorrectedPulseSequence st' (lookupMinTreshhold w) =
              overcorrectedPulseSequence st (lookupMinTreshhold w) -
                cur st (lookupMinTreshhold w) * resistance p
       else averagedPulseSequence st' (lookupMinTreshhold w) =
              (overcorrectedPulseSequence st (lookupMinTreshhold w) -
                 cur st (lookupMinTreshhold w) * resistance p +
               overcorrectedPulseSequence st (lookupMinTreshhold w)) / Fin 2)) \<and>
   (0 < lenOfPulseSequence p \<and>
    LookupThresholdFound (componentWindow p direction 0 (allocate p heap)) \<and>
    lookupMinTreshhold (componentWindow p direction 0 (allocate p heap)) <
      lookupMaxTreshold (componentWindow p direction 0 (allocate p heap)) \<and>
    relaxationSlice p 0 c (componentWindow p direction 0 (allocate p heap)) 0
      (computeSumRatio p (rateState p 0 (allocate p heap))) = Some first \<longrightarrow>
      overcorrectedPulseSequence first
          (lookupMinTreshhold (componentWindow p direction 0 (allocate p heap))) =
        DLCcorrectedSequence p
          (lookupMinTreshhold (componentWindow p direction 0 (allocate p heap))) -
        Fin 0 * resistance p)"
proof -
  have init: "\<forall>j<lenOfPulseSequence p. cur (allocate p heap) j = Fin 0"
    by (simp add: allocate_cur)
  have frame: "cur (computeSumRatio p (rateState p i st)) = cur st"
    "cur (overcorrectionPass p i w st) = cur st" "cur (averagingPass p i w st) = cur st"
    by (simp_all add: computeSumRatio_frame rateState_frame overcorrectionPass_frame
        averagingPass_frame)
  have march: "\<forall>n. n \<le> lookupMinTreshhold w \<or> lookupMaxTreshold w < n \<longrightarrow>
      cur (snd (currentMarch p i c w (red, st))) n = cur st n \<and>
      (relaxationSlice p i c w j st = Some st' \<longrightarrow> cur st' n = cur st n)"
    by (auto simp: currentMarch_cur_other dest: relaxationSlice_cur_other)
  have component: "\<forall>n. processComponent p direction i st = Some st'' \<and>
        (n \<le> lookupMinTreshhold (componentWindow p direction i st) \<or>
         lookupMaxTreshold (componentWindow p direction i st) < n) \<longrightarrow>
      cur st'' n = cur st n"
    using processComponent_cur_other by blast
  have passes: "\<forall>m. lookupMinTreshhold w \<le> m \<and> m < lookupMaxTreshold w \<longrightarrow>
      overcorrectedPulseSequence (overcorrectionPass p i w st) m =
        overcorrectedPulseSequence st m - cur st m * resistance p \<and>
      averagedPulseSequence (averagingPass p i w st) m =
        (overcorrectedPulseSequence st m - cur st m * resistance p +
         overcorrectedPulseSequence st m) / Fin 2"
    by (simp add: overcorrectionPass_at averagingPass_at)
  have slice: "LookupThresholdFound w \<and> lookupMinTreshhold w < lookupMaxTreshold w \<and>
    relaxationSlice p i c w j st = Some st' \<longrightarrow>
      (if j mod 2 = 0
       then overcorrectedPulseSequence st' (lookupMinTreshhold w) =
              overcorrectedPulseSequence st (lookupMinTreshhold w) -
                cur st (lookupMinTreshhold w) * resistance p
       else averagedPulseSequence st' (lookupMinTreshhold w) =
              (overcorrectedPulseSequence st (lookupMinTreshhold w) -
                 cur st (lookupMinTreshhold w) * resistance p +
               overcorrectedPulseSequence st (lookupMinTreshhold w)) / Fin 2)"
    using relaxationSlice_at_min by blast
  have first: "0 < lenOfPulseSequence p \<and>
    LookupThresholdFound (componentWindow p direction 0 (allocate p heap)) \<and>
    lookupMinTreshhold (componentWindow p direction 0 (allocate p heap)) <
      lookupMaxTreshold (componentWindow p direction 0 (allocate p heap)) \<and>
    relaxationSlice p 0 c (componentWindow p direction 0 (allocate p heap)) 0
      (computeSumRatio p (rateState p 0 (allocate p heap))) = Some first \<longrightarrow>
      overcorrectedPulseSequence first
          (lookupMinTreshhold (componentWindow p direction 0 (allocate p heap))) =
        DLCcorrectedSequence p
          (lookupMinTreshhold (componentWindow p direction 0 (allocate p heap))) -
        Fin 0 * resistance p"
  proof (intro impI, elim conjE)
    let ?w = "componentWindow p direction 0 (allocate p heap)"
    assume len: "0 < lenOfPulseSequence p"
      and found: "LookupThresholdFound ?w"
      and less: "lookupMinTreshhold ?w < lookupMaxTreshold ?w"
      and run: "relaxationSlice p 0 c ?w 0
                  (computeSumRatio p (rateState p 0 (allocate p heap))) = Some first"
    have inside: "lookupMinTreshhold ?w < lenOfPulseSequence p"
      unfolding componentWindow_def using len by (rule windowDetection_min_less)
    from relaxationSlice_at_min [OF found less run]
    show "overcorrectedPulseSequence first (lookupMinTreshhold ?w) =
            DLCcorrectedSequence p (lookupMinTreshhold ?w) - Fin 0 * resistance p"
      using inside
      by (simp add: computeSumRatio_frame rateState_frame allocate_cur allocate_overcorrected)
  qed
  show ?thesis
    by (intro conjI) (rule init frame march component passes slice first)+
qed

text \<open>
  The first slice of the component of \<open>slowComponent\<close>: its window is from 0 to 1, the
  march writes \<open>cur[1]\<close> only, and the correction at index 0 subtracts \<open>0 * 100\<close> from the
  corrected potential 0 V.
\<close>

theorem stale_current_at_window_start_witness:
  "0 < lenOfPulseSequence slowComponent \<and>
   LookupThresholdFound (componentWindow slowComponent False 0 (allocate slowComponent zeroHeap)) \<and>
   lookupMinTreshhold (componentWindow slowComponent False 0 (allocate slowComponent zeroHeap)) = 0 \<and>
   lookupMaxTreshold (componentWindow slowComponent False 0 (allocate slowComponent zeroHeap)) = 1 \<and>
   (\<exists>first. relaxationSlice slowComponent 0 (truncatedComponent (Fin (1 / 10000000000)) 2)
              (componentWindow slowComponent False 0 (allocate slowComponent zeroHeap)) 0
              (computeSumRatio slowComponent
                 (rateState slowComponent 0 (allocate slowComponent zeroHeap))) = Some first \<and>
      overcorrectedPulseSequence first 0 = Fin 0 \<and> cur first 0 = Fin 0)"
proof -
  let ?w = "componentWindow slowComponent False 0 (allocate slowComponent zeroHeap)"
  let ?s = "computeSumRatio slowComponent (rateState slowComponent 0 (allocate slowComponent zeroHeap))"
  let ?c = "truncatedComponent (Fin (1 / 10000000000)) 2"
  have len: "0 < lenOfPulseSequence slowComponent"
    by (simp add: slowComponent_def)
  have found: "LookupThresholdFound ?w" by (rule slow_found)
  have less: "lookupMinTreshhold ?w < lookupMaxTreshold ?w" by (simp add: slow_window)
  have "toInt (zArray slowComponent 0) \<noteq> None"
    by (simp add: slowComponent_def truncToZero_def INT_MAX_def INT_MIN_def)
  then obtain first where run: "relaxationSlice slowComponent 0 ?c ?w 0 ?s = Some first"
    using relaxationSlice_defined by blast
  note inst = stale_current_at_window_start [where p = slowComponent and heap = zeroHeap
      and i = 0 and direction = False and c = ?c and w = ?w and j = 0 and first = first
      and st' = first]
  note initial = inst [THEN conjunct1]
  note prologue = inst [where st = "allocate slowComponent zeroHeap", THEN conjunct2,
      THEN conjunct1]
  note outside = inst [where st = ?s, THEN conjunct2, THEN conjunct2, THEN conjunct2,
      THEN conjunct2, THEN conjunct1]
  note start = inst [THEN conjunct2, THEN conjunct2, THEN conjunct2, THEN conjunct2,
      THEN conjunct2, THEN conjunct2, THEN conjunct2, THEN conjunct2]
  have "overcorrectedPulseSequence first (lookupMinTreshhold ?w) =
          DLCcorrectedSequence slowComponent (lookupMinTreshhold ?w) - Fin 0 * resistance slowComponent"
    using start len found less run by (simp only: simp_thms)
  then have over: "overcorrectedPulseSequence first 0 = Fin 0"
    by (simp add: slow_window) (simp add: slowComponent_def zeroArray_def double_ops)
  have "cur first 0 = cur ?s 0"
    using outside [rule_format, of 0] run by (simp add: slow_window)
  also have "cur ?s 0 = cur (allocate slowComponent zeroHeap) 0"
    using prologue by simp
  also have "cur (allocate slowComponent zeroHeap) 0 = Fin 0"
    using initial len by simp
  finally have "cur first 0 = Fin 0" .
  with len found over run show ?thesis
    by (auto simp: slow_window)
qed

end
